theory Spec2Isabelle
  imports Complex_Main "HOL-Library.AList" "HOL-Library.Sublist"
begin

section \<open>Python values\<close>

text \<open>
  The connector (\<^verbatim>\<open>etl_connector.py\<close>) handles decoded JSON: \<^verbatim>\<open>None\<close>, booleans,
  integers, floats, strings, lists and dicts with string keys. The documents it builds
  also hold a \<^verbatim>\<open>datetime\<close>. One value type covers them all, as Python is untyped.

  A float is a rational or one of the special values; only its comparison with other
  values and its truth value are used by the connector, never its arithmetic.
  A dict is an association list in insertion order (Python dicts keep it); a dict that
  the JSON decoder produced has pairwise distinct keys.
  A string is a list of bytes (UTF-8); the only characters the connector inspects are
  the ASCII \<^verbatim>\<open>/\<close> and \<^verbatim>\<open>_\<close>, which are single bytes.
\<close>

datatype pyfloat = Fin rat | NegZero | PosInf | NegInf | NaN

datatype datetime = Instant int

datatype pyval =
    PNone
  | PBool bool
  | PInt int
  | PFloat pyfloat
  | PStr string
  | PList "pyval list"
  | PDict "(string \<times> pyval) list"
  | PDatetime datetime

type_synonym pydict = "(string \<times> pyval) list"

subsection \<open>Equality (\<^verbatim>\<open>==\<close>) and truth value\<close>

datatype pynum = NInt int | NFloat pyfloat

fun num_of :: "pyval \<Rightarrow> pynum option" where
  "num_of (PBool b) = Some (NInt (if b then 1 else 0))"
| "num_of (PInt i) = Some (NInt i)"
| "num_of (PFloat f) = Some (NFloat f)"
| "num_of _ = None"

fun float_eq_rat :: "pyfloat \<Rightarrow> rat \<Rightarrow> bool" where
  "float_eq_rat (Fin r) q = (r = q)"
| "float_eq_rat NegZero q = (q = 0)"
| "float_eq_rat _ q = False"

fun float_eq :: "pyfloat \<Rightarrow> pyfloat \<Rightarrow> bool" where
  "float_eq NaN _ = False"
| "float_eq _ NaN = False"
| "float_eq PosInf g = (g = PosInf)"
| "float_eq NegInf g = (g = NegInf)"
| "float_eq f (Fin q) = float_eq_rat f q"
| "float_eq f NegZero = float_eq_rat f 0"
| "float_eq f _ = False"

fun num_eq :: "pynum \<Rightarrow> pynum \<Rightarrow> bool" where
  "num_eq (NInt i) (NInt j) = (i = j)"
| "num_eq (NInt i) (NFloat g) = float_eq_rat g (of_int i)"
| "num_eq (NFloat f) (NInt j) = float_eq_rat f (of_int j)"
| "num_eq (NFloat f) (NFloat g) = float_eq f g"

text \<open>
  Python's \<^verbatim>\<open>==\<close> on these values: numbers (booleans included) compare by value
  across their types, lists elementwise, dicts by key regardless of order, and values of
  different kinds are unequal. (Python also takes two references to one object inside a
  container as equal without calling \<^verbatim>\<open>==\<close>; values carry no identity here.)
\<close>

fun py_eq :: "pyval \<Rightarrow> pyval \<Rightarrow> bool"
  and py_eq_list :: "pyval list \<Rightarrow> pyval list \<Rightarrow> bool"
  and py_eq_items :: "pydict \<Rightarrow> pydict \<Rightarrow> bool" where
  "py_eq PNone b = (b = PNone)"
| "py_eq (PStr s) b = (case b of PStr t \<Rightarrow> s = t | _ \<Rightarrow> False)"
| "py_eq (PDatetime d) b = (case b of PDatetime e \<Rightarrow> d = e | _ \<Rightarrow> False)"
| "py_eq (PList xs) b = (case b of PList ys \<Rightarrow> py_eq_list xs ys | _ \<Rightarrow> False)"
| "py_eq (PDict d) b =
     (case b of PDict e \<Rightarrow> length d = length e \<and> py_eq_items d e | _ \<Rightarrow> False)"
| "py_eq (PBool x) b =
     (case num_of b of Some n \<Rightarrow> num_eq (NInt (if x then 1 else 0)) n | None \<Rightarrow> False)"
| "py_eq (PInt i) b = (case num_of b of Some n \<Rightarrow> num_eq (NInt i) n | None \<Rightarrow> False)"
| "py_eq (PFloat f) b = (case num_of b of Some n \<Rightarrow> num_eq (NFloat f) n | None \<Rightarrow> False)"
| "py_eq_list [] ys = (ys = [])"
| "py_eq_list (x # xs) ys =
     (case ys of [] \<Rightarrow> False | y # ys' \<Rightarrow> py_eq x y \<and> py_eq_list xs ys')"
| "py_eq_items [] e = True"
| "py_eq_items ((k, v) # d) e =
     (case map_of e k of None \<Rightarrow> False | Some w \<Rightarrow> py_eq v w \<and> py_eq_items d e)"

text \<open>\<^verbatim>\<open>x in xs\<close> for a list: some element equals \<^verbatim>\<open>x\<close>.\<close>

definition py_in :: "pyval \<Rightarrow> pyval list \<Rightarrow> bool" where
  "py_in v xs = list_ex (py_eq v) xs"

text \<open>The truth value that \<^verbatim>\<open>or\<close> and \<^verbatim>\<open>if\<close> test.\<close>

fun truthy :: "pyval \<Rightarrow> bool" where
  "truthy PNone = False"
| "truthy (PBool b) = b"
| "truthy (PInt i) = (i \<noteq> 0)"
| "truthy (PFloat f) = (f \<noteq> Fin 0 \<and> f \<noteq> NegZero)"
| "truthy (PStr s) = (s \<noteq> [])"
| "truthy (PList xs) = (xs \<noteq> [])"
| "truthy (PDict d) = (d \<noteq> [])"
| "truthy (PDatetime t) = True"

definition py_or :: "pyval \<Rightarrow> pyval \<Rightarrow> pyval" where
  "py_or a b = (if truthy a then a else b)"

subsection \<open>Dicts and strings\<close>

text \<open>\<^verbatim>\<open>d.get(k)\<close>: the value, \<^verbatim>\<open>None\<close> when the key is absent.\<close>

definition dict_get :: "pydict \<Rightarrow> string \<Rightarrow> pyval" where
  "dict_get d k = (case map_of d k of None \<Rightarrow> PNone | Some v \<Rightarrow> v)"

text \<open>\<^verbatim>\<open>d[k] = v\<close>: replaces the value in place, or appends a new key.\<close>

definition dict_set :: "pydict \<Rightarrow> string \<Rightarrow> pyval \<Rightarrow> pydict" where
  "dict_set d k v = AList.update k v d"

definition lstrip :: "char \<Rightarrow> string \<Rightarrow> string" where
  "lstrip c s = dropWhile (\<lambda>x. x = c) s"

definition rstrip :: "char \<Rightarrow> string \<Rightarrow> string" where
  "rstrip c s = rev (dropWhile (\<lambda>x. x = c) (rev s))"

definition strip :: "char \<Rightarrow> string \<Rightarrow> string" where
  "strip c s = rstrip c (lstrip c s)"

text \<open>\<^verbatim>\<open>s.replace(a, b)\<close> for single characters.\<close>

definition replace :: "char \<Rightarrow> char \<Rightarrow> string \<Rightarrow> string" where
  "replace a b s = map (\<lambda>x. if x = a then b else x) s"

section \<open>The transformer's cleaning step and the collection name\<close>

text \<open>
  \<^verbatim>\<open>def clean_record(d): return {k: v for k, v in d.items()
                                    if v not in [None, "", [], {}, "null"]}\<close>
\<close>

definition clean_record :: "pydict \<Rightarrow> pydict" where
  "clean_record d =
     filter (\<lambda>(k, v). \<not> py_in v [PNone, PStr [], PList [], PDict [], PStr ''null'']) d"

text \<open>
  \<^verbatim>\<open>def endpoint_to_collection(endpoint):
      name = endpoint.strip("/").replace("/", "_")
      if name == "": name = "root"
      return f"{name}_raw"\<close>
\<close>

definition endpoint_to_collection :: "string \<Rightarrow> string" where
  "endpoint_to_collection endpoint =
     (let name = replace CHR ''/'' CHR ''_'' (strip CHR ''/'' endpoint);
          name = (if name = [] then ''root'' else name)
      in name @ ''_raw'')"

section \<open>The world outside the connector\<close>

text \<open>
  Exceptions the connector meets: the two classes its \<^verbatim>\<open>except\<close> clauses name
  (\<^verbatim>\<open>requests.exceptions.Timeout\<close> is a subclass of
  \<^verbatim>\<open>requests.exceptions.RequestException\<close>), \<^verbatim>\<open>AttributeError\<close> for a method call
  on a value that has no such method, \<^verbatim>\<open>ValueError\<close> and \<^verbatim>\<open>SystemExit\<close> at start-up,
  and any other exception the HTTP stack may raise.
\<close>

datatype exc =
  Timeout | RequestException | AttributeError | ValueError | SystemExit | OtherException

fun is_request_exception :: "exc \<Rightarrow> bool" where
  "is_request_exception Timeout = True"
| "is_request_exception RequestException = True"
| "is_request_exception _ = False"

text \<open>
  What the three statements in the \<^verbatim>\<open>try\<close> block of \<^verbatim>\<open>safe_get_json\<close> do together
  (\<^verbatim>\<open>session.get\<close>, \<^verbatim>\<open>raise_for_status\<close>, \<^verbatim>\<open>resp.json\<close>): return the decoded body
  or raise. The retries that the HTTP adapter of the session makes on its own happen
  inside \<^verbatim>\<open>session.get\<close> and are part of this one outcome.
\<close>

datatype attempt = Returned pyval | Raised exc

datatype level = DEBUG | INFO | WARNING | ERROR

text \<open>
  The effects of the connector, recorded in order: the GET requests issued (URL, query
  parameters, timeout), the log calls (level, message, arguments), the durations slept,
  and how many times the clock was read.
\<close>

record world =
  requests :: "(string \<times> pyval \<times> pyval) list"
  log :: "(level \<times> string \<times> pyval list) list"
  slept :: "rat list"
  clock_reads :: nat

text \<open>
  What the surroundings answer: the outcome of the \<open>n\<close>-th GET request of the run, the
  time at the \<open>n\<close>-th reading of the clock, and the library functions \<^verbatim>\<open>str\<close>,
  \<^verbatim>\<open>datetime.isoformat\<close> and \<^verbatim>\<open>float\<close>.
\<close>

record ext =
  http :: "nat \<Rightarrow> string \<Rightarrow> pyval \<Rightarrow> pyval \<Rightarrow> attempt"
  clock :: "nat \<Rightarrow> datetime"
  py_str :: "pyval \<Rightarrow> string"
  isoformat :: "datetime \<Rightarrow> string"
  py_float :: "string \<Rightarrow> pyfloat option"

definition log_msg :: "level \<Rightarrow> string \<Rightarrow> pyval list \<Rightarrow> world \<Rightarrow> world" where
  "log_msg l m args w = w\<lparr>log := log w @ [(l, m, args)]\<rparr>"

definition sleep :: "rat \<Rightarrow> world \<Rightarrow> world" where
  "sleep t w = w\<lparr>slept := slept w @ [t]\<rparr>"

section \<open>Module-level configuration\<close>

record globals =
  BASE_URL :: string
  MONGO_URI :: string
  DB_NAME :: string
  REQUEST_TIMEOUT :: pyval

text \<open>\<^verbatim>\<open>os.getenv(name, default)\<close> on the environment after \<^verbatim>\<open>load_dotenv()\<close>.\<close>

definition getenv :: "(string \<rightharpoonup> string) \<Rightarrow> string \<Rightarrow> string \<Rightarrow> string" where
  "getenv environ name dflt = (case environ name of None \<Rightarrow> dflt | Some v \<Rightarrow> v)"

text \<open>
  The statements the module runs when it is loaded, as far as they set the four
  configuration globals, in the order of the file:
  \<^verbatim>\<open>
  BASE_URL = os.getenv("BASE_URL", "https://api.filterlists.com")
  MONGO_URI = os.getenv("MONGO_URI", "mongodb://localhost:27017")
  DB_NAME = os.getenv("DB_NAME", "filterlists_db")
  REQUEST_TIMEOUT = float(os.getenv("REQUEST_TIMEOUT", "10"))  # seconds
  ...
  try: mongo_client = MongoClient(...); mongo_client.server_info(); ...
  except errors.ServerSelectionTimeoutError as e: ...; raise SystemExit(1)
  ...
  REQUEST_TIMEOUT = 10  # seconds
  \<close>
  \<open>mongo_up\<close> says whether the storage server answers.
\<close>

definition module_init :: "ext \<Rightarrow> (string \<rightharpoonup> string) \<Rightarrow> bool \<Rightarrow> exc + globals" where
  "module_init x environ mongo_up =
     (case py_float x (getenv environ ''REQUEST_TIMEOUT'' ''10'') of
        None \<Rightarrow> Inl ValueError
      | Some t \<Rightarrow>
          let g = \<lparr>BASE_URL = getenv environ ''BASE_URL'' ''https://api.filterlists.com'',
                   MONGO_URI = getenv environ ''MONGO_URI'' ''mongodb://localhost:27017'',
                   DB_NAME = getenv environ ''DB_NAME'' ''filterlists_db'',
                   REQUEST_TIMEOUT = PFloat t\<rparr>
          in if \<not> mongo_up then Inl SystemExit
             else Inr (g\<lparr>REQUEST_TIMEOUT := PInt 10\<rparr>))"

section \<open>The fetcher\<close>

text \<open>
  \<^verbatim>\<open>
  def safe_get_json(url, params=None):
      for attempt in range(3):
          try:
              resp = session.get(url, params=params, timeout=REQUEST_TIMEOUT)
              resp.raise_for_status()
              return resp.json()
          except requests.exceptions.Timeout:
              logging.warning(f"Timeout while fetching {url} (attempt {attempt+1}/3)")
          except requests.exceptions.RequestException as e:
              logging.warning(f"Error fetching {url}: {e}")
          time.sleep(2)
      logging.error(f"Failed to fetch {url} after 3 attempts - skipping.")
      return {}
  \<close>
  The loop is a recursion over the remaining values of \<^verbatim>\<open>range(3)\<close>. An exception that
  no clause catches leaves the function.
\<close>

fun attempts ::
  "ext \<Rightarrow> globals \<Rightarrow> string \<Rightarrow> pyval \<Rightarrow> nat list \<Rightarrow> world \<Rightarrow> (exc + pyval) \<times> world" where
  "attempts x g url params [] w =
     (Inr (PDict []),
      log_msg ERROR ''Failed to fetch {url} after 3 attempts - skipping.'' [PStr url] w)"
| "attempts x g url params (attempt # rest) w =
     (let w1 = w\<lparr>requests := requests w @ [(url, params, REQUEST_TIMEOUT g)]\<rparr>
      in case http x (length (requests w)) url params (REQUEST_TIMEOUT g) of
           Returned j \<Rightarrow> (Inr j, w1)
         | Raised e \<Rightarrow>
             if e = Timeout then
               attempts x g url params rest
                 (sleep 2 (log_msg WARNING ''Timeout while fetching {url} (attempt {attempt+1}/3)''
                             [PStr url, PInt (int attempt + 1)] w1))
             else if is_request_exception e then
               attempts x g url params rest
                 (sleep 2 (log_msg WARNING ''Error fetching {url}: {e}'' [PStr url] w1))
             else (Inl e, w1))"

definition safe_get_json ::
  "ext \<Rightarrow> globals \<Rightarrow> string \<Rightarrow> pyval \<Rightarrow> world \<Rightarrow> (exc + pyval) \<times> world" where
  "safe_get_json x g url params w = attempts x g url params [0..<3] w"

section \<open>The extractor\<close>

text \<open>
  The loop of the \<^verbatim>\<open>/lists\<close> branch:
  \<^verbatim>\<open>
  for item in lists:
      list_id = item.get("id")
      if list_id is None:
          detailed.append(item)
          continue
      detail_url = f"{BASE_URL.rstrip('/')}/lists/{list_id}"
      logger.debug("Fetching detail for list id=%s", list_id)
      detail = safe_get_json(detail_url)
      # if detail is None, fallback to original item
      detailed.append(detail if detail is not None else item)
      time.sleep(0.1)
  return detailed
  \<close>
  \<^verbatim>\<open>item.get\<close> exists on a dict only.
\<close>

fun detail_loop ::
  "ext \<Rightarrow> globals \<Rightarrow> pyval list \<Rightarrow> pyval list \<Rightarrow> world \<Rightarrow> (exc + pyval list) \<times> world" where
  "detail_loop x g [] detailed w = (Inr detailed, w)"
| "detail_loop x g (item # items) detailed w =
     (case item of
        PDict d \<Rightarrow>
          let list_id = dict_get d ''id'' in
          if list_id = PNone then detail_loop x g items (detailed @ [item]) w
          else
            let detail_url = rstrip CHR ''/'' (BASE_URL g) @ ''/lists/'' @ py_str x list_id;
                w1 = log_msg DEBUG ''Fetching detail for list id=%s'' [list_id] w
            in (case safe_get_json x g detail_url PNone w1 of
                  (Inl e, w2) \<Rightarrow> (Inl e, w2)
                | (Inr detail, w2) \<Rightarrow>
                    detail_loop x g items
                      (detailed @ [if detail \<noteq> PNone then detail else item])
                      (sleep (1 / 10) w2))
      | _ \<Rightarrow> (Inl AttributeError, w))"

text \<open>
  \<^verbatim>\<open>
  def extract(endpoint):
      url = BASE_URL.rstrip("/") + endpoint
      logger.info("Extracting %s", endpoint)
      data = safe_get_json(url)
      if data is None:
          logger.warning("No data returned from %s", endpoint)
          return []
      if endpoint == "/lists":
          lists = data if isinstance(data, list) else []
          detailed = []
          for item in lists: ...
          return detailed
      else:
          if isinstance(data, list):
              return data
          if isinstance(data, dict):
              if "data" in data and isinstance(data["data"], list):
                  return data["data"]
              return [data]
          return []
  \<close>
  (\<^verbatim>\<open>extract\<close> is a reserved word of Isabelle, hence the longer name.)
\<close>

definition extract_endpoint ::
  "ext \<Rightarrow> globals \<Rightarrow> string \<Rightarrow> world \<Rightarrow> (exc + pyval list) \<times> world" where
  "extract_endpoint x g endpoint w =
     (let url = rstrip CHR ''/'' (BASE_URL g) @ endpoint;
          w1 = log_msg INFO ''Extracting %s'' [PStr endpoint] w
      in case safe_get_json x g url PNone w1 of
           (Inl e, w2) \<Rightarrow> (Inl e, w2)
         | (Inr data, w2) \<Rightarrow>
             if data = PNone then
               (Inr [], log_msg WARNING ''No data returned from %s'' [PStr endpoint] w2)
             else if endpoint = ''/lists'' then
               detail_loop x g (case data of PList xs \<Rightarrow> xs | _ \<Rightarrow> []) [] w2
             else
               (case data of
                  PList xs \<Rightarrow> (Inr xs, w2)
                | PDict d \<Rightarrow>
                    (case map_of d ''data'' of
                       Some (PList ys) \<Rightarrow> (Inr ys, w2)
                     | _ \<Rightarrow> (Inr [data], w2))
                | _ \<Rightarrow> (Inr [], w2)))"

section \<open>The transformer\<close>

text \<open>
  The envelope built for one cleaned record:
  \<^verbatim>\<open>
  doc = {
      "_source_id": rec.get("id") or rec.get("_id"),
      "record_index": i,
      "endpoint": endpoint.strip("/"),
      "ingestion_time": now,
      "schema_version": 1.0,
      "source": {"api_base": BASE_URL, "endpoint": endpoint,
                 "retrieved_at": now.isoformat()},
      "data": rec,
  }
  \<close>
\<close>

definition envelope :: "ext \<Rightarrow> globals \<Rightarrow> string \<Rightarrow> datetime \<Rightarrow> int \<Rightarrow> pydict \<Rightarrow> pydict" where
  "envelope x g endpoint now i rec =
     [(''_source_id'', py_or (dict_get rec ''id'') (dict_get rec ''_id'')),
      (''record_index'', PInt i),
      (''endpoint'', PStr (strip CHR ''/'' endpoint)),
      (''ingestion_time'', PDatetime now),
      (''schema_version'', PFloat (Fin 1)),
      (''source'', PDict [(''api_base'', PStr (BASE_URL g)),
                          (''endpoint'', PStr endpoint),
                          (''retrieved_at'', PStr (isoformat x now))]),
      (''data'', PDict rec)]"

text \<open>
  The endpoint-specific fields, an \<^verbatim>\<open>if\<close>/\<^verbatim>\<open>elif\<close> chain of assignments
  \<^verbatim>\<open>doc["name"] = rec.get("name")\<close> and the like.
\<close>

definition flatten :: "string \<Rightarrow> pydict \<Rightarrow> pydict \<Rightarrow> pydict" where
  "flatten endpoint rec doc =
     (if endpoint = ''/languages'' then
        dict_set (dict_set doc ''name'' (dict_get rec ''name''))
          ''iso_code'' (dict_get rec ''iso6391'')
      else if endpoint = ''/licenses'' then
        dict_set (dict_set doc ''license_name'' (dict_get rec ''name''))
          ''license_url'' (dict_get rec ''url'')
      else if endpoint = ''/maintainers'' then
        dict_set (dict_set doc ''maintainer_name'' (dict_get rec ''name''))
          ''maintainer_url'' (dict_get rec ''url'')
      else if endpoint = ''/software'' then
        dict_set (dict_set doc ''software_name'' (dict_get rec ''name''))
          ''software_home'' (dict_get rec ''homeUrl'')
      else if endpoint = ''/syntaxes'' then
        dict_set doc ''syntax_name'' (dict_get rec ''name'')
      else if endpoint = ''/tags'' then
        dict_set doc ''tag_name'' (dict_get rec ''name'')
      else doc)"

text \<open>
  \<^verbatim>\<open>
  for i, rec in enumerate(records, start=1):
      rec = clean_record(rec)
      doc = {...}
      ...
      transformed.append(doc)
  return transformed
  \<close>
  \<^verbatim>\<open>clean_record\<close> calls \<^verbatim>\<open>d.items()\<close>, which exists on a dict only.
\<close>

fun transform_loop ::
  "ext \<Rightarrow> globals \<Rightarrow> string \<Rightarrow> datetime \<Rightarrow> int \<Rightarrow> pyval list \<Rightarrow> pyval list
     \<Rightarrow> exc + pyval list" where
  "transform_loop x g endpoint now i [] transformed = Inr transformed"
| "transform_loop x g endpoint now i (r # records) transformed =
     (case r of
        PDict d \<Rightarrow>
          let rec = clean_record d;
              doc = flatten endpoint rec (envelope x g endpoint now i rec)
          in transform_loop x g endpoint now (i + 1) records (transformed @ [PDict doc])
      | _ \<Rightarrow> Inl AttributeError)"

text \<open>
  \<^verbatim>\<open>
  def transform(records, endpoint):
      logger.info("Transforming %d records from %s", len(records), endpoint)
      transformed = []
      now = datetime.now().astimezone()
      ...
  \<close>
\<close>

definition transform ::
  "ext \<Rightarrow> globals \<Rightarrow> pyval list \<Rightarrow> string \<Rightarrow> world \<Rightarrow> (exc + pyval list) \<times> world" where
  "transform x g records endpoint w =
     (let w1 = log_msg INFO ''Transforming %d records from %s''
                 [PInt (int (length records)), PStr endpoint] w;
          now = clock x (clock_reads w1);
          w2 = w1\<lparr>clock_reads := clock_reads w1 + 1\<rparr>
      in (transform_loop x g endpoint now 1 records [], w2))"

section \<open>The transformer on a store of objects\<close>

text \<open>
  Python lists and dicts are objects that are shared by reference and changed in place:
  \<^verbatim>\<open>transformed.append(doc)\<close> and \<^verbatim>\<open>doc["name"] = ...\<close> change an object, and the
  dict that \<^verbatim>\<open>clean_record\<close> returns holds references to the very values of the record
  it was given. Whether \<^verbatim>\<open>transform\<close> changes an object of its caller is a question
  about these references, so \<^verbatim>\<open>transform\<close> is modelled a second time, on an explicit
  store: a list of objects, the address of an object being its position. A value is
  immediate (\<^verbatim>\<open>None\<close>, numbers, strings, datetimes: immutable in Python) or a
  reference to a list or a dict in the store. A new object is put at the end of the
  store.
\<close>

datatype hval =
  HNone | HBool bool | HInt int | HFloat pyfloat | HStr string | HDatetime datetime | HRef nat

datatype hobj = HList "hval list" | HDict "(string \<times> hval) list"

type_synonym store = "hobj list"

text \<open>An address beyond the end of the store holds nothing.\<close>

definition deref :: "store \<Rightarrow> nat \<Rightarrow> hobj option" where
  "deref h a = (if a < length h then Some (h ! a) else None)"

definition alloc :: "hobj \<Rightarrow> store \<Rightarrow> nat \<times> store" where
  "alloc ob h = (length h, h @ [ob])"

text \<open>
  \<^verbatim>\<open>v == c\<close> for a value \<open>v\<close> of the store and a literal \<open>c\<close> of the program text, by
  recursion on the literal; \<^verbatim>\<open>v in [c1, ..., cn]\<close>; the truth value; \<^verbatim>\<open>a or b\<close>.
  (The objects that evaluating the literal allocates are dropped after the test and are
  not put in the store.)
\<close>

fun hnum_of :: "hval \<Rightarrow> pynum option" where
  "hnum_of (HBool b) = Some (NInt (if b then 1 else 0))"
| "hnum_of (HInt i) = Some (NInt i)"
| "hnum_of (HFloat f) = Some (NFloat f)"
| "hnum_of _ = None"

fun store_eq :: "store \<Rightarrow> hval \<Rightarrow> pyval \<Rightarrow> bool"
  and store_eq_list :: "store \<Rightarrow> hval list \<Rightarrow> pyval list \<Rightarrow> bool"
  and store_eq_items :: "store \<Rightarrow> (string \<times> hval) list \<Rightarrow> pydict \<Rightarrow> bool" where
  "store_eq h v PNone = (v = HNone)"
| "store_eq h v (PStr t) = (v = HStr t)"
| "store_eq h v (PDatetime e) = (v = HDatetime e)"
| "store_eq h v (PBool b) =
     (case hnum_of v of Some n \<Rightarrow> num_eq n (NInt (if b then 1 else 0)) | None \<Rightarrow> False)"
| "store_eq h v (PInt i) = (case hnum_of v of Some n \<Rightarrow> num_eq n (NInt i) | None \<Rightarrow> False)"
| "store_eq h v (PFloat f) = (case hnum_of v of Some n \<Rightarrow> num_eq n (NFloat f) | None \<Rightarrow> False)"
| "store_eq h v (PList ys) =
     (case v of
        HRef a \<Rightarrow> (case deref h a of Some (HList xs) \<Rightarrow> store_eq_list h xs ys | _ \<Rightarrow> False)
      | _ \<Rightarrow> False)"
| "store_eq h v (PDict e) =
     (case v of
        HRef a \<Rightarrow> (case deref h a of
                     Some (HDict d) \<Rightarrow> length d = length e \<and> store_eq_items h d e
                   | _ \<Rightarrow> False)
      | _ \<Rightarrow> False)"
| "store_eq_list h xs [] = (xs = [])"
| "store_eq_list h xs (y # ys) =
     (case xs of [] \<Rightarrow> False | x # xs' \<Rightarrow> store_eq h x y \<and> store_eq_list h xs' ys)"
| "store_eq_items h d [] = True"
| "store_eq_items h d ((k, w) # e) =
     (case map_of d k of None \<Rightarrow> False | Some v \<Rightarrow> store_eq h v w \<and> store_eq_items h d e)"

definition store_in :: "store \<Rightarrow> hval \<Rightarrow> pyval list \<Rightarrow> bool" where
  "store_in h v lits = list_ex (store_eq h v) lits"

fun store_truthy :: "store \<Rightarrow> hval \<Rightarrow> bool" where
  "store_truthy h HNone = False"
| "store_truthy h (HBool b) = b"
| "store_truthy h (HInt i) = (i \<noteq> 0)"
| "store_truthy h (HFloat f) = (f \<noteq> Fin 0 \<and> f \<noteq> NegZero)"
| "store_truthy h (HStr s) = (s \<noteq> [])"
| "store_truthy h (HDatetime t) = True"
| "store_truthy h (HRef a) =
     (case deref h a of Some (HList xs) \<Rightarrow> xs \<noteq> [] | Some (HDict d) \<Rightarrow> d \<noteq> [] | None \<Rightarrow> True)"

definition store_or :: "store \<Rightarrow> hval \<Rightarrow> hval \<Rightarrow> hval" where
  "store_or h a b = (if store_truthy h a then a else b)"

text \<open>
  What iterating over the object at an address yields: the elements of a list, the keys
  of a dict. \<open>get_at\<close> is \<^verbatim>\<open>d.get(k)\<close>, \<open>set_at\<close> is \<^verbatim>\<open>d[k] = v\<close> and \<open>append_at\<close> is
  \<^verbatim>\<open>xs.append(v)\<close> on the object at an address; the transformer applies the last two
  to objects it has created itself, a dict and a list.
\<close>

definition items_at :: "store \<Rightarrow> nat \<Rightarrow> hval list" where
  "items_at h a =
     (case deref h a of
        Some (HList xs) \<Rightarrow> xs
      | Some (HDict d) \<Rightarrow> map (\<lambda>(k, v). HStr k) d
      | None \<Rightarrow> [])"

definition get_at :: "store \<Rightarrow> nat \<Rightarrow> string \<Rightarrow> hval" where
  "get_at h a k =
     (case deref h a of
        Some (HDict d) \<Rightarrow> (case map_of d k of None \<Rightarrow> HNone | Some v \<Rightarrow> v)
      | _ \<Rightarrow> HNone)"

definition set_at :: "store \<Rightarrow> nat \<Rightarrow> string \<Rightarrow> hval \<Rightarrow> store" where
  "set_at h a k v =
     (case deref h a of Some (HDict d) \<Rightarrow> h[a := HDict (AList.update k v d)] | _ \<Rightarrow> h)"

definition append_at :: "store \<Rightarrow> nat \<Rightarrow> hval \<Rightarrow> store" where
  "append_at h a v =
     (case deref h a of Some (HList xs) \<Rightarrow> h[a := HList (xs @ [v])] | _ \<Rightarrow> h)"

text \<open>
  \<^verbatim>\<open>clean_record\<close>: a new dict with the items of the record that pass the test; the
  values are not copied. A record that is not a dict has no \<^verbatim>\<open>items\<close>.
\<close>

definition clean_record_store :: "store \<Rightarrow> hval \<Rightarrow> exc + nat \<times> store" where
  "clean_record_store h r =
     (case r of
        HRef a \<Rightarrow>
          (case deref h a of
             Some (HDict d) \<Rightarrow>
               Inr (alloc (HDict (filter (\<lambda>(k, v). \<not> store_in h v
                      [PNone, PStr [], PList [], PDict [], PStr ''null'']) d)) h)
           | _ \<Rightarrow> Inl AttributeError)
      | _ \<Rightarrow> Inl AttributeError)"

text \<open>
  The dict display of \<^verbatim>\<open>doc\<close>: the values are evaluated in order, which creates the
  inner \<^verbatim>\<open>source\<close> dict, then the dict itself is created. \<open>rec\<close> is the address of the
  cleaned record.
\<close>

definition envelope_store ::
  "ext \<Rightarrow> globals \<Rightarrow> string \<Rightarrow> datetime \<Rightarrow> int \<Rightarrow> nat \<Rightarrow> store \<Rightarrow> nat \<times> store" where
  "envelope_store x g endpoint now i rec h =
     (let source_id = store_or h (get_at h rec ''id'') (get_at h rec ''_id'');
          (src, h1) = alloc (HDict [(''api_base'', HStr (BASE_URL g)),
                                    (''endpoint'', HStr endpoint),
                                    (''retrieved_at'', HStr (isoformat x now))]) h
      in alloc (HDict [(''_source_id'', source_id),
                       (''record_index'', HInt i),
                       (''endpoint'', HStr (strip CHR ''/'' endpoint)),
                       (''ingestion_time'', HDatetime now),
                       (''schema_version'', HFloat (Fin 1)),
                       (''source'', HRef src),
                       (''data'', HRef rec)]) h1)"

text \<open>
  Two assignments in a row, \<^verbatim>\<open>doc[k1] = rec.get(f1); doc[k2] = rec.get(f2)\<close>, and the
  \<^verbatim>\<open>if\<close>/\<^verbatim>\<open>elif\<close> chain over the endpoint.
\<close>

definition assign2 ::
  "store \<Rightarrow> nat \<Rightarrow> nat \<Rightarrow> string \<Rightarrow> string \<Rightarrow> string \<Rightarrow> string \<Rightarrow> store" where
  "assign2 h doc rec k1 f1 k2 f2 =
     (let h1 = set_at h doc k1 (get_at h rec f1)
      in set_at h1 doc k2 (get_at h1 rec f2))"

definition flatten_store :: "string \<Rightarrow> nat \<Rightarrow> nat \<Rightarrow> store \<Rightarrow> store" where
  "flatten_store endpoint rec doc h =
     (if endpoint = ''/languages'' then assign2 h doc rec ''name'' ''name'' ''iso_code'' ''iso6391''
      else if endpoint = ''/licenses'' then
        assign2 h doc rec ''license_name'' ''name'' ''license_url'' ''url''
      else if endpoint = ''/maintainers'' then
        assign2 h doc rec ''maintainer_name'' ''name'' ''maintainer_url'' ''url''
      else if endpoint = ''/software'' then
        assign2 h doc rec ''software_name'' ''name'' ''software_home'' ''homeUrl''
      else if endpoint = ''/syntaxes'' then set_at h doc ''syntax_name'' (get_at h rec ''name'')
      else if endpoint = ''/tags'' then set_at h doc ''tag_name'' (get_at h rec ''name'')
      else h)"

text \<open>
  The \<^verbatim>\<open>for\<close> loop. The iterator of \<^verbatim>\<open>enumerate(records, start=1)\<close> holds a position
  and reads the list object anew at every step, so the loop is a recursion on the
  position that looks \<open>records\<close> up in the current store. Python does not bound such a
  loop (a body that appends to the list it iterates over never ends), hence the result
  is an option and \<open>None\<close> stands for a loop that does not end.
\<close>

partial_function (option) transform_store_loop ::
  "ext \<Rightarrow> globals \<Rightarrow> string \<Rightarrow> datetime \<Rightarrow> nat \<Rightarrow> nat \<Rightarrow> nat \<Rightarrow> store
     \<Rightarrow> ((exc + nat) \<times> store) option" where
  "transform_store_loop x g endpoint now records transformed pos h =
     (if pos < length (items_at h records) then
        (case clean_record_store h (items_at h records ! pos) of
           Inl e \<Rightarrow> Some (Inl e, h)
         | Inr (rec, h1) \<Rightarrow>
             (case envelope_store x g endpoint now (int pos + 1) rec h1 of
                (doc, h2) \<Rightarrow>
                  transform_store_loop x g endpoint now records transformed (pos + 1)
                    (append_at (flatten_store endpoint rec doc h2) transformed (HRef doc))))
      else Some (Inr transformed, h))"

declare transform_store_loop.simps [code]

text \<open>
  \<^verbatim>\<open>transform\<close>: \<open>records\<close> is the address of the argument; the result is the address
  of the new list \<^verbatim>\<open>transformed\<close>.
\<close>

definition transform_store ::
  "ext \<Rightarrow> globals \<Rightarrow> nat \<Rightarrow> string \<Rightarrow> store \<Rightarrow> world
     \<Rightarrow> ((exc + nat) \<times> store \<times> world) option" where
  "transform_store x g records endpoint h w =
     (let w1 = log_msg INFO ''Transforming %d records from %s''
                 [PInt (int (length (items_at h records))), PStr endpoint] w;
          (transformed, h1) = alloc (HList []) h;
          now = clock x (clock_reads w1);
          w2 = w1\<lparr>clock_reads := clock_reads w1 + 1\<rparr>
      in case transform_store_loop x g endpoint now records transformed 0 h1 of
           None \<Rightarrow> None
         | Some (r, h') \<Rightarrow> Some (r, h', w2))"

section \<open>Notions used to state the properties\<close>

text \<open>
  The values that the specification lists for removal by \<^verbatim>\<open>clean_record\<close>: null, the
  empty string, the empty sequence, the empty mapping and the string \<^verbatim>\<open>"null"\<close>.
\<close>

definition spec_removable :: "pyval \<Rightarrow> bool" where
  "spec_removable v =
     (v = PNone \<or> v = PStr [] \<or> v = PList [] \<or> v = PDict [] \<or> v = PStr ''null'')"

text \<open>
  The documents that the loop of \<^verbatim>\<open>transform\<close> builds for a sequence of dicts, the
  first of them with index \<open>i\<close>.
\<close>

fun enriched ::
  "ext \<Rightarrow> globals \<Rightarrow> string \<Rightarrow> datetime \<Rightarrow> int \<Rightarrow> pydict list \<Rightarrow> pydict list" where
  "enriched x g endpoint now i [] = []"
| "enriched x g endpoint now i (d # ds) =
     flatten endpoint (clean_record d) (envelope x g endpoint now i (clean_record d))
       # enriched x g endpoint now (i + 1) ds"

text \<open>The field \<^verbatim>\<open>doc["source"]["retrieved_at"]\<close> of a document.\<close>

definition retrieved_at :: "pydict \<Rightarrow> pyval" where
  "retrieved_at doc =
     (case dict_get doc ''source'' of PDict s \<Rightarrow> dict_get s ''retrieved_at'' | _ \<Rightarrow> PNone)"

text \<open>
  The documents of a result list are new when each of them is an object at or beyond
  the address \<open>n\<close> whose \<^verbatim>\<open>data\<close> field refers to an object at or beyond \<open>n\<close>.
  \<open>docs_inv\<close> is the invariant of the loop that gives this: it also says that the
  documents are in the store and differ from the result list itself.
\<close>

definition fresh_docs :: "nat \<Rightarrow> store \<Rightarrow> nat \<Rightarrow> bool" where
  "fresh_docs n h t =
     list_all (\<lambda>v. case v of
                  HRef doc \<Rightarrow> n \<le> doc \<and> (case get_at h doc ''data'' of HRef c \<Rightarrow> n \<le> c | _ \<Rightarrow> False)
                | _ \<Rightarrow> False)
       (items_at h t)"

definition doc_ok :: "nat \<Rightarrow> store \<Rightarrow> nat \<Rightarrow> hval \<Rightarrow> bool" where
  "doc_ok n h t v =
     (\<exists>doc d c. v = HRef doc \<and> n \<le> doc \<and> doc < length h \<and> doc \<noteq> t \<and>
        deref h doc = Some (HDict d) \<and> map_of d ''data'' = Some (HRef c) \<and> n \<le> c)"

definition docs_inv :: "nat \<Rightarrow> store \<Rightarrow> nat \<Rightarrow> bool" where
  "docs_inv n h t =
     (n \<le> t \<and> t < length h \<and>
      (case deref h t of Some (HList xs) \<Rightarrow> list_all (doc_ok n h t) xs | _ \<Rightarrow> False))"

text \<open>
  The value that a value of the store stands for: \<open>reads A h v p\<close> says that following
  the references of \<open>v\<close> in the store \<open>h\<close>, never through an address in \<open>A\<close>, gives the
  Python value \<open>p\<close>. It relates the two models of \<^verbatim>\<open>transform\<close>.
\<close>

inductive reads :: "nat set \<Rightarrow> store \<Rightarrow> hval \<Rightarrow> pyval \<Rightarrow> bool" for A h where
  "reads A h HNone PNone"
| "reads A h (HBool b) (PBool b)"
| "reads A h (HInt i) (PInt i)"
| "reads A h (HFloat f) (PFloat f)"
| "reads A h (HStr s) (PStr s)"
| "reads A h (HDatetime t) (PDatetime t)"
| "a \<notin> A \<Longrightarrow> deref h a = Some (HList xs) \<Longrightarrow> list_all2 (reads A h) xs ps \<Longrightarrow>
     reads A h (HRef a) (PList ps)"
| "a \<notin> A \<Longrightarrow> deref h a = Some (HDict d) \<Longrightarrow>
     list_all2 (\<lambda>kv kp. fst kv = fst kp \<and> reads A h (snd kv) (snd kp)) d e \<Longrightarrow>
     reads A h (HRef a) (PDict e)"

definition items_rel :: "nat set \<Rightarrow> store \<Rightarrow> (string \<times> hval) list \<Rightarrow> pydict \<Rightarrow> bool" where
  "items_rel A h d e = list_all2 (\<lambda>kv kp. fst kv = fst kp \<and> reads A h (snd kv) (snd kp)) d e"

section \<open>Example surroundings\<close>

text \<open>
  Concrete surroundings on which the theorems below are instantiated: the default
  configuration, a world in which nothing has happened yet, a server that is unreachable
  (every request times out), a server that answers every request with the same body, and
  a server that answers the first request with a list of one item and is unreachable
  afterwards.
\<close>

definition default_globals :: globals where
  "default_globals =
     \<lparr>BASE_URL = ''https://api.filterlists.com'',
      MONGO_URI = ''mongodb://localhost:27017'',
      DB_NAME = ''filterlists_db'',
      REQUEST_TIMEOUT = PInt 10\<rparr>"

definition fresh_world :: world where
  "fresh_world = \<lparr>requests = [], log = [], slept = [], clock_reads = 0\<rparr>"

definition example_float :: "string \<Rightarrow> pyfloat option" where
  "example_float s =
     (if s = ''10'' then Some (Fin 10) else if s = ''30'' then Some (Fin 30) else None)"

definition example_str :: "pyval \<Rightarrow> string" where
  "example_str v = (case v of PInt i \<Rightarrow> (if i = 42 then ''42'' else ''0'') | PStr s \<Rightarrow> s | _ \<Rightarrow> [])"

definition unreachable :: ext where
  "unreachable =
     \<lparr>http = (\<lambda>n url params t. Raised Timeout),
      clock = (\<lambda>n. Instant (int n)),
      py_str = example_str,
      isoformat = (\<lambda>t. ''2024-01-01T00:00:00+00:00''),
      py_float = example_float\<rparr>"

definition serving :: "pyval \<Rightarrow> ext" where
  "serving body = unreachable\<lparr>http := (\<lambda>n url params t. Returned body)\<rparr>"

definition list_item :: pyval where
  "list_item = PDict [(''id'', PInt 42), (''name'', PStr ''X'')]"

definition lists_then_down :: ext where
  "lists_then_down =
     unreachable\<lparr>http := (\<lambda>n url params t.
        if n = 0 then Returned (PList [list_item]) else Raised Timeout)\<rparr>"

text \<open>Two records of the \<^verbatim>\<open>/languages\<close> endpoint, as values and as objects of a store.\<close>

definition example_records :: "pydict list" where
  "example_records =
     [[(''id'', PInt 1), (''name'', PStr ''English''), (''iso6391'', PStr ''en'')],
      [(''id'', PInt 2), (''name'', PStr ''''), (''iso6391'', PNone)]]"

definition example_store :: store where
  "example_store =
     [HDict [(''id'', HInt 1), (''name'', HStr ''English''), (''iso6391'', HStr ''en'')],
      HDict [(''id'', HInt 2), (''name'', HStr ''''), (''iso6391'', HNone)],
      HList [HRef 0, HRef 1]]"

section \<open>Properties of the fetcher\<close>

lemma requests_log_msg: "requests (log_msg l m a w) = requests w"
  by (simp add: log_msg_def)

lemma requests_sleep: "requests (sleep t w) = requests w"
  by (simp add: sleep_def)

text \<open>
  Every request that \<open>attempts\<close> adds is the same one: the URL and parameters it was
  given, with the timeout held by the global at the time of the call; and it adds at most
  one per remaining attempt.
\<close>

lemma attempts_requests:
  "\<exists>k\<le>length as. requests (snd (attempts x g url params as w)) =
      requests w @ replicate k (url, params, REQUEST_TIMEOUT g)"
proof (induction as arbitrary: w)
  case Nil
  show ?case by (simp add: requests_log_msg)
next
  case (Cons a as)
  let ?r = "(url, params, REQUEST_TIMEOUT g)"
  show ?case
  proof (cases "http x (length (requests w)) url params (REQUEST_TIMEOUT g)")
    case (Returned j)
    then have "requests (snd (attempts x g url params (a # as) w)) = requests w @ replicate 1 ?r"
      by simp
    then show ?thesis by (metis One_nat_def Suc_leI length_Cons zero_less_Suc)
  next
    case (Raised e)
    show ?thesis
    proof (cases "is_request_exception e")
      case False
      then have "e \<noteq> Timeout" by auto
      with Raised False
      have "requests (snd (attempts x g url params (a # as) w)) = requests w @ replicate 1 ?r"
        by simp
      then show ?thesis by (metis One_nat_def Suc_leI length_Cons zero_less_Suc)
    next
      case True
      then obtain w' where w': "attempts x g url params (a # as) w = attempts x g url params as w'"
        and rw': "requests w' = requests w @ [?r]"
        using Raised by (cases "e = Timeout") (simp_all add: requests_log_msg requests_sleep)
      from Cons.IH[of w'] obtain k where k: "k \<le> length as"
        and "requests (snd (attempts x g url params as w')) = requests w' @ replicate k ?r"
        by blast
      then have "requests (snd (attempts x g url params (a # as) w)) =
          requests w @ replicate (Suc k) ?r"
        using w' rw' by (simp add: replicate_app_Cons_same)
      moreover have "Suc k \<le> length (a # as)" using k by simp
      ultimately show ?thesis by blast
    qed
  qed
qed

text \<open>
  When each of the remaining attempts raises a \<^verbatim>\<open>RequestException\<close> (a timeout
  included), the loop runs to its end, makes one request per attempt, and returns the
  empty dict.
\<close>

lemma attempts_all_fail:
  "(\<And>n. n < length as \<Longrightarrow>
      \<exists>e. http x (length (requests w) + n) url params (REQUEST_TIMEOUT g) = Raised e \<and>
          is_request_exception e) \<Longrightarrow>
   fst (attempts x g url params as w) = Inr (PDict []) \<and>
   length (requests (snd (attempts x g url params as w))) = length (requests w) + length as"
proof (induction as arbitrary: w)
  case Nil
  show ?case by (simp add: requests_log_msg)
next
  case (Cons a as)
  let ?r = "(url, params, REQUEST_TIMEOUT g)"
  from Cons.prems[of 0] obtain e
    where e: "http x (length (requests w)) url params (REQUEST_TIMEOUT g) = Raised e"
      and re: "is_request_exception e" by auto
  obtain w' where w': "attempts x g url params (a # as) w = attempts x g url params as w'"
    and rw': "requests w' = requests w @ [?r]"
    using e re by (cases "e = Timeout") (simp_all add: requests_log_msg requests_sleep)
  have "\<And>n. n < length as \<Longrightarrow>
      \<exists>e. http x (length (requests w') + n) url params (REQUEST_TIMEOUT g) = Raised e \<and>
          is_request_exception e"
    using Cons.prems[of "Suc n" for n] rw' by simp
  from Cons.IH[OF this] show ?case using w' rw' by simp
qed

text \<open>
  Claim C5. A call of \<^verbatim>\<open>safe_get_json\<close> issues at most three requests; and when all
  three of them fail with a transport-level error (a \<^verbatim>\<open>RequestException\<close>, timeouts
  included), the call returns the empty dict as a value: it does not raise.
\<close>

theorem safe_get_json_exhaustion:
  "length (requests (snd (safe_get_json x g url params w))) \<le> length (requests w) + 3 \<and>
   ((\<forall>n<3. \<exists>e. http x (length (requests w) + n) url params (REQUEST_TIMEOUT g) = Raised e \<and>
               is_request_exception e) \<longrightarrow>
    fst (safe_get_json x g url params w) = Inr (PDict []))"
proof
  obtain k where "k \<le> length [0..<3]"
    and "requests (snd (attempts x g url params [0..<3] w)) =
      requests w @ replicate k (url, params, REQUEST_TIMEOUT g)"
    using attempts_requests by blast
  then show "length (requests (snd (safe_get_json x g url params w))) \<le> length (requests w) + 3"
    by (simp add: safe_get_json_def)
next
  show "(\<forall>n<3. \<exists>e. http x (length (requests w) + n) url params (REQUEST_TIMEOUT g) = Raised e \<and>
               is_request_exception e) \<longrightarrow>
    fst (safe_get_json x g url params w) = Inr (PDict [])"
  proof
    assume a: "\<forall>n<3. \<exists>e.
      http x (length (requests w) + n) url params (REQUEST_TIMEOUT g) = Raised e \<and>
      is_request_exception e"
    have "fst (attempts x g url params [0..<3] w) = Inr (PDict [])"
      using attempts_all_fail[of "[0..<3]" x w url params g] a by simp
    then show "fst (safe_get_json x g url params w) = Inr (PDict [])"
      by (simp add: safe_get_json_def)
  qed
qed

theorem safe_get_json_exhaustion_witness:
  "http unreachable 0 ''https://api.filterlists.com/tags'' PNone (PInt 10) = Raised Timeout \<and>
   http unreachable 1 ''https://api.filterlists.com/tags'' PNone (PInt 10) = Raised Timeout \<and>
   http unreachable 2 ''https://api.filterlists.com/tags'' PNone (PInt 10) = Raised Timeout \<and>
   is_request_exception Timeout \<and>
   fst (safe_get_json unreachable default_globals ''https://api.filterlists.com/tags'' PNone
          fresh_world) = Inr (PDict []) \<and>
   length (requests (snd (safe_get_json unreachable default_globals
          ''https://api.filterlists.com/tags'' PNone fresh_world))) \<le> 3"
proof -
  have h: "\<forall>n<3. \<exists>e. http unreachable (length (requests fresh_world) + n)
                 ''https://api.filterlists.com/tags'' PNone (REQUEST_TIMEOUT default_globals)
                 = Raised e \<and> is_request_exception e"
    by (simp add: unreachable_def)
  have z: "length (requests fresh_world) = 0" by (simp add: fresh_world_def)
  have "fst (safe_get_json unreachable default_globals ''https://api.filterlists.com/tags'' PNone
          fresh_world) = Inr (PDict []) \<and>
        length (requests (snd (safe_get_json unreachable default_globals
          ''https://api.filterlists.com/tags'' PNone fresh_world))) \<le> 3"
    using h z safe_get_json_exhaustion[of unreachable default_globals
        "''https://api.filterlists.com/tags''" PNone fresh_world]
    by simp
  then show ?thesis by (simp add: unreachable_def)
qed

lemma safe_get_json_first:
  "http x (length (requests w)) url params (REQUEST_TIMEOUT g) = Returned j \<Longrightarrow>
   safe_get_json x g url params w =
     (Inr j, w\<lparr>requests := requests w @ [(url, params, REQUEST_TIMEOUT g)]\<rparr>)"
  by (simp add: safe_get_json_def upt_conv_Cons)

lemma safe_get_json_all_fail:
  assumes "\<forall>n<3. \<exists>e. http x (length (requests w) + n) url params (REQUEST_TIMEOUT g) = Raised e \<and>
               is_request_exception e"
  shows "fst (safe_get_json x g url params w) = Inr (PDict [])"
  using attempts_all_fail[of "[0..<3]" x w url params g] assms
  by (simp add: safe_get_json_def)

text \<open>
  Claim C2 says that the timeout of every request is the value configured through the
  environment variable \<^verbatim>\<open>REQUEST_TIMEOUT\<close>, 10 being the default only. What the module
  does: it reads the variable, and a later statement of the module assigns the constant
  10 to the same global. So, whatever the environment holds, a module that loads ends
  with \<^verbatim>\<open>REQUEST_TIMEOUT = 10\<close>, and every request of \<^verbatim>\<open>safe_get_json\<close> carries the
  timeout 10.
\<close>

theorem request_timeout_is_constant:
  assumes "module_init x environ mongo_up = Inr g"
  shows "REQUEST_TIMEOUT g = PInt 10 \<and>
         (\<exists>k\<le>3. requests (snd (safe_get_json x g url params w)) =
                   requests w @ replicate k (url, params, PInt 10))"
proof -
  have t: "REQUEST_TIMEOUT g = PInt 10"
    using assms by (auto simp: module_init_def Let_def split: option.splits if_splits)
  obtain k where "k \<le> length [0..<3]"
    and "requests (snd (attempts x g url params [0..<3] w)) =
      requests w @ replicate k (url, params, REQUEST_TIMEOUT g)"
    using attempts_requests by blast
  then show ?thesis using t by (auto simp: safe_get_json_def)
qed

theorem request_timeout_is_constant_witness:
  "module_init unreachable [''REQUEST_TIMEOUT'' \<mapsto> ''30''] True = Inr default_globals \<and>
   py_float unreachable ''30'' = Some (Fin 30) \<and>
   REQUEST_TIMEOUT default_globals = PInt 10 \<and>
   \<not> py_eq (PInt 10) (PFloat (Fin 30)) \<and>
   (\<exists>k\<le>3. requests (snd (safe_get_json unreachable default_globals ''https://api.filterlists.com/tags''
                            PNone fresh_world)) =
             requests fresh_world @ replicate k (''https://api.filterlists.com/tags'', PNone, PInt 10))"
proof -
  have m: "module_init unreachable [''REQUEST_TIMEOUT'' \<mapsto> ''30''] True = Inr default_globals"
    by (simp add: module_init_def unreachable_def example_float_def getenv_def default_globals_def)
  have f: "py_float unreachable ''30'' = Some (Fin 30)"
    by (simp add: unreachable_def example_float_def)
  have n: "\<not> py_eq (PInt 10) (PFloat (Fin 30))" by simp
  show ?thesis
    using m f n request_timeout_is_constant[OF m, of "''https://api.filterlists.com/tags''" PNone fresh_world]
    by blast
qed

section \<open>Properties of the extractor\<close>

text \<open>
  Claim C7. For an endpoint other than \<^verbatim>\<open>/lists\<close>, when the fetch returns a value
  \<open>data\<close>, \<^verbatim>\<open>extract\<close> returns \<open>data\<close> itself when it is a list, the list under the key
  \<^verbatim>\<open>data\<close> when \<open>data\<close> is a dict that holds a list there, the one-element list of
  \<open>data\<close> when it is any other dict, and the empty list for every other shape.
\<close>

theorem extract_other_endpoints:
  assumes "endpoint \<noteq> ''/lists''"
      and "fst (safe_get_json x g (rstrip CHR ''/'' (BASE_URL g) @ endpoint) PNone
                 (log_msg INFO ''Extracting %s'' [PStr endpoint] w)) = Inr data"
    shows "fst (extract_endpoint x g endpoint w) =
             Inr (case data of
                    PList xs \<Rightarrow> xs
                  | PDict d \<Rightarrow> (case map_of d ''data'' of
                                 Some (PList ys) \<Rightarrow> ys
                               | _ \<Rightarrow> [PDict d])
                  | _ \<Rightarrow> [])"
proof -
  obtain w' where "safe_get_json x g (rstrip CHR ''/'' (BASE_URL g) @ endpoint) PNone
                 (log_msg INFO ''Extracting %s'' [PStr endpoint] w) = (Inr data, w')"
    using assms(2) by (metis prod.collapse)
  then show ?thesis using assms(1)
    by (simp add: extract_endpoint_def split: pyval.splits option.splits)
qed

theorem extract_other_endpoints_witness:
  "fst (extract_endpoint (serving (PList [list_item])) default_globals ''/tags'' fresh_world) =
     Inr [list_item] \<and>
   fst (extract_endpoint (serving (PDict [(''data'', PList [list_item])])) default_globals ''/tags''
          fresh_world) = Inr [list_item] \<and>
   fst (extract_endpoint (serving list_item) default_globals ''/tags'' fresh_world) =
     Inr [list_item] \<and>
   fst (extract_endpoint (serving (PStr ''text'')) default_globals ''/tags'' fresh_world) = Inr []"
proof -
  have ne: "''/tags'' \<noteq> ''/lists''" by simp
  have f: "fst (safe_get_json (serving b) default_globals
                 (rstrip CHR ''/'' (BASE_URL default_globals) @ ''/tags'') PNone
                 (log_msg INFO ''Extracting %s'' [PStr ''/tags''] fresh_world)) = Inr b" for b
    by (simp add: safe_get_json_first serving_def)
  show ?thesis
    using extract_other_endpoints[OF ne f[of "PList [list_item]"]]
          extract_other_endpoints[OF ne f[of "PDict [(''data'', PList [list_item])]"]]
          extract_other_endpoints[OF ne f[of list_item]]
          extract_other_endpoints[OF ne f[of "PStr ''text''"]]
    by (simp add: list_item_def)
qed

text \<open>
  Claim C1 says that for the \<^verbatim>\<open>/lists\<close> endpoint an item whose detail fetch yields no
  data (the empty dict that \<^verbatim>\<open>safe_get_json\<close> returns after its last attempt) is kept as
  the list-view item. What the code does: it falls back to the item only when the detail
  is \<^verbatim>\<open>None\<close>, which the exhausted fetcher never returns. So when the list fetch returns
  one item with an identifier and the three attempts of its detail fetch fail,
  \<^verbatim>\<open>extract\<close> returns the empty dict in place of the item.
\<close>

theorem lists_detail_exhausted:
  assumes "http x (length (requests w)) (rstrip CHR ''/'' (BASE_URL g) @ ''/lists'') PNone
             (REQUEST_TIMEOUT g) = Returned (PList [PDict d])"
      and "dict_get d ''id'' \<noteq> PNone"
      and "\<forall>n<3. \<exists>e. http x (Suc (length (requests w)) + n)
             (rstrip CHR ''/'' (BASE_URL g) @ ''/lists/'' @ py_str x (dict_get d ''id'')) PNone
             (REQUEST_TIMEOUT g) = Raised e \<and> is_request_exception e"
    shows "fst (extract_endpoint x g ''/lists'' w) = Inr [PDict []] \<and> PDict [] \<noteq> PDict d"
proof -
  let ?url = "rstrip CHR ''/'' (BASE_URL g) @ ''/lists''"
  let ?durl = "rstrip CHR ''/'' (BASE_URL g) @ ''/lists/'' @ py_str x (dict_get d ''id'')"
  let ?w1 = "log_msg INFO ''Extracting %s'' [PStr ''/lists''] w"
  let ?w2 = "?w1\<lparr>requests := requests ?w1 @ [(?url, PNone, REQUEST_TIMEOUT g)]\<rparr>"
  let ?w3 = "log_msg DEBUG ''Fetching detail for list id=%s'' [dict_get d ''id''] ?w2"
  have 1: "safe_get_json x g ?url PNone ?w1 = (Inr (PList [PDict d]), ?w2)"
    using assms(1) by (simp add: safe_get_json_first requests_log_msg)
  have l3: "length (requests ?w3) = Suc (length (requests w))"
    by (simp add: requests_log_msg)
  have 2: "fst (safe_get_json x g ?durl PNone ?w3) = Inr (PDict [])"
    by (rule safe_get_json_all_fail) (use assms(3) l3 in simp)
  obtain w4 where 3: "safe_get_json x g ?durl PNone ?w3 = (Inr (PDict []), w4)"
    using 2 by (metis prod.collapse)
  have "detail_loop x g [PDict d] [] ?w2 = (Inr [PDict []], sleep (1 / 10) w4)"
    using assms(2) 3 by (simp add: Let_def)
  then have "fst (extract_endpoint x g ''/lists'' w) = Inr [PDict []]"
    using 1 by (simp add: extract_endpoint_def)
  moreover have "d \<noteq> []" using assms(2) by (auto simp: dict_get_def)
  ultimately show ?thesis by simp
qed

theorem lists_detail_exhausted_witness:
  "fst (extract_endpoint lists_then_down default_globals ''/lists'' fresh_world) = Inr [PDict []] \<and>
   PDict [] \<noteq> list_item"
proof -
  have a: "http lists_then_down (length (requests fresh_world))
             (rstrip CHR ''/'' (BASE_URL default_globals) @ ''/lists'') PNone
             (REQUEST_TIMEOUT default_globals) =
           Returned (PList [PDict [(''id'', PInt 42), (''name'', PStr ''X'')]])"
    by (simp add: lists_then_down_def fresh_world_def list_item_def)
  have b: "dict_get [(''id'', PInt 42), (''name'', PStr ''X'')] ''id'' \<noteq> PNone"
    by (simp add: dict_get_def)
  have c: "\<forall>n<3. \<exists>e. http lists_then_down (Suc (length (requests fresh_world)) + n)
             (rstrip CHR ''/'' (BASE_URL default_globals) @ ''/lists/'' @
                py_str lists_then_down (dict_get [(''id'', PInt 42), (''name'', PStr ''X'')] ''id''))
             PNone (REQUEST_TIMEOUT default_globals) = Raised e \<and> is_request_exception e"
    by (simp add: lists_then_down_def)
  show ?thesis using lists_detail_exhausted[OF a b c] by (simp add: list_item_def)
qed

text \<open>
  When the detail fetch returns a value other than \<^verbatim>\<open>None\<close> at its first attempt, the
  output record is that value.
\<close>

lemma lists_detail_success:
  assumes "http x (length (requests w)) (rstrip CHR ''/'' (BASE_URL g) @ ''/lists'') PNone
             (REQUEST_TIMEOUT g) = Returned (PList [PDict d])"
      and "dict_get d ''id'' \<noteq> PNone"
      and "http x (Suc (length (requests w)))
             (rstrip CHR ''/'' (BASE_URL g) @ ''/lists/'' @ py_str x (dict_get d ''id'')) PNone
             (REQUEST_TIMEOUT g) = Returned detail"
      and "detail \<noteq> PNone"
    shows "fst (extract_endpoint x g ''/lists'' w) = Inr [detail]"
proof -
  let ?url = "rstrip CHR ''/'' (BASE_URL g) @ ''/lists''"
  let ?durl = "rstrip CHR ''/'' (BASE_URL g) @ ''/lists/'' @ py_str x (dict_get d ''id'')"
  let ?w1 = "log_msg INFO ''Extracting %s'' [PStr ''/lists''] w"
  let ?w2 = "?w1\<lparr>requests := requests ?w1 @ [(?url, PNone, REQUEST_TIMEOUT g)]\<rparr>"
  let ?w3 = "log_msg DEBUG ''Fetching detail for list id=%s'' [dict_get d ''id''] ?w2"
  let ?w4 = "?w3\<lparr>requests := requests ?w3 @ [(?durl, PNone, REQUEST_TIMEOUT g)]\<rparr>"
  have 1: "safe_get_json x g ?url PNone ?w1 = (Inr (PList [PDict d]), ?w2)"
    using assms(1) by (simp add: safe_get_json_first requests_log_msg)
  have l3: "length (requests ?w3) = Suc (length (requests w))"
    by (simp add: requests_log_msg)
  have 2: "safe_get_json x g ?durl PNone ?w3 = (Inr detail, ?w4)"
    by (rule safe_get_json_first) (use assms(3) l3 in simp)
  have "detail_loop x g [PDict d] [] ?w2 = (Inr [detail], sleep (1 / 10) ?w4)"
    using assms(2,4) 2 by (simp add: Let_def)
  then show ?thesis using 1 by (simp add: extract_endpoint_def)
qed

section \<open>Properties of the cleaning step\<close>

lemma py_eq_list_Nil: "py_eq_list xs [] = (xs = [])"
  by (cases xs) simp_all

lemma py_eq_items_Nil: "(length d = 0 \<and> py_eq_items d []) = (d = [])"
  by (cases d) auto

text \<open>
  Python's membership test against the five literals holds for exactly the five values
  of the specification: no number, boolean or datetime equals any of them, and a
  container equals an empty container only when it is empty itself.
\<close>

lemma py_in_literals:
  "py_in v [PNone, PStr [], PList [], PDict [], PStr ''null''] = spec_removable v"
  by (cases v) (auto simp: py_in_def spec_removable_def py_eq_list_Nil py_eq_items_Nil)

text \<open>
  Claim C4. \<^verbatim>\<open>clean_record\<close> keeps, in their order and unchanged, exactly the items
  whose value is none of: null, the empty string, the empty sequence, the empty mapping,
  the string \<^verbatim>\<open>"null"\<close>. The values 0 and false are not among the removed ones; and a
  container that holds such a value is not removed and not cleaned inside (the test looks
  at the values of the top-level keys only).
\<close>

theorem clean_record_removes_exactly:
  "clean_record d = filter (\<lambda>(k, v). \<not> spec_removable v) d \<and>
   \<not> spec_removable (PInt 0) \<and> \<not> spec_removable (PBool False) \<and>
   \<not> spec_removable (PList [PNone]) \<and> \<not> spec_removable (PDict [(k, PNone)])"
  unfolding clean_record_def py_in_literals by (simp add: spec_removable_def)

theorem clean_record_removes_exactly_witness:
  "clean_record
     [(''a'', PNone), (''b'', PInt 0), (''c'', PStr ''null''), (''d'', PBool False),
      (''e'', PDict [(''x'', PNone)]), (''f'', PList []), (''g'', PDict []), (''h'', PStr []),
      (''i'', PList [PStr []])] =
   [(''b'', PInt 0), (''d'', PBool False), (''e'', PDict [(''x'', PNone)]),
    (''i'', PList [PStr []])]"
  using clean_record_removes_exactly[of
     "[(''a'', PNone), (''b'', PInt 0), (''c'', PStr ''null''), (''d'', PBool False),
      (''e'', PDict [(''x'', PNone)]), (''f'', PList []), (''g'', PDict []), (''h'', PStr []),
      (''i'', PList [PStr []])]"]
  by (simp add: spec_removable_def)

section \<open>Properties of the transformer\<close>

lemma dict_get_set_other: "k' \<noteq> k \<Longrightarrow> dict_get (dict_set d k v) k' = dict_get d k'"
  by (simp add: dict_get_def dict_set_def update_conv')

lemma flatten_keeps:
  "k \<notin> {''name'', ''iso_code'', ''license_name'', ''license_url'', ''maintainer_name'',
         ''maintainer_url'', ''software_name'', ''software_home'', ''syntax_name'', ''tag_name''} \<Longrightarrow>
   dict_get (flatten endpoint rec doc) k = dict_get doc k"
  by (simp add: flatten_def dict_get_set_other)

lemma envelope_fields:
  "dict_get (envelope x g endpoint now i rec) ''_source_id'' =
     py_or (dict_get rec ''id'') (dict_get rec ''_id'')"
  "dict_get (envelope x g endpoint now i rec) ''record_index'' = PInt i"
  "dict_get (envelope x g endpoint now i rec) ''ingestion_time'' = PDatetime now"
  "dict_get (envelope x g endpoint now i rec) ''data'' = PDict rec"
  "retrieved_at (envelope x g endpoint now i rec) = PStr (isoformat x now)"
  by (simp_all add: envelope_def dict_get_def retrieved_at_def)

lemma doc_fields:
  "dict_get (flatten endpoint rec (envelope x g endpoint now i rec)) ''_source_id'' =
     py_or (dict_get rec ''id'') (dict_get rec ''_id'')"
  "dict_get (flatten endpoint rec (envelope x g endpoint now i rec)) ''record_index'' = PInt i"
  "dict_get (flatten endpoint rec (envelope x g endpoint now i rec)) ''ingestion_time'' = PDatetime now"
  "dict_get (flatten endpoint rec (envelope x g endpoint now i rec)) ''data'' = PDict rec"
  "retrieved_at (flatten endpoint rec (envelope x g endpoint now i rec)) = PStr (isoformat x now)"
  by (simp_all add: flatten_keeps envelope_fields retrieved_at_def[of "flatten _ _ _"]
        retrieved_at_def[symmetric])

lemma transform_loop_dicts:
  "transform_loop x g endpoint now i (map PDict ds) acc =
     Inr (acc @ map PDict (enriched x g endpoint now i ds))"
  by (induction ds arbitrary: i acc) (simp_all add: Let_def)

lemma transform_dicts:
  "transform x g (map PDict ds) endpoint w =
     (Inr (map PDict (enriched x g endpoint (clock x (clock_reads w)) 1 ds)),
      (log_msg INFO ''Transforming %d records from %s''
         [PInt (int (length ds)), PStr endpoint] w)\<lparr>clock_reads := clock_reads w + 1\<rparr>)"
  by (simp add: transform_def transform_loop_dicts Let_def log_msg_def)


lemma enriched_index:
  "map (\<lambda>doc. dict_get doc ''record_index'') (enriched x g endpoint now i ds) =
     map PInt [i..i + int (length ds) - 1]"
proof (induction ds arbitrary: i)
  case Nil
  show ?case by simp
next
  case (Cons d ds)
  have "[i..i + int (length (d # ds)) - 1] = i # [i + 1..i + 1 + int (length ds) - 1]"
    by (subst upto_rec1) (simp_all add: add.commute add.left_commute)
  then show ?case using Cons.IH[of "i + 1"] by (simp add: doc_fields)
qed

lemma enriched_time:
  "list_all (\<lambda>doc. dict_get doc ''ingestion_time'' = PDatetime now \<and>
                   retrieved_at doc = PStr (isoformat x now))
     (enriched x g endpoint now i ds)"
  by (induction ds arbitrary: i) (simp_all add: doc_fields)

lemma enriched_data:
  "map (\<lambda>doc. dict_get doc ''data'') (enriched x g endpoint now i ds) =
     map (\<lambda>d. PDict (clean_record d)) ds"
  by (induction ds arbitrary: i) (simp_all add: doc_fields)

text \<open>
  Claim C6. For every sequence of records (dicts) and every endpoint, \<^verbatim>\<open>transform\<close>
  returns documents whose \<^verbatim>\<open>record_index\<close> values are 1, 2, ..., n in the order of the
  input (the document at each position nests the cleaned record of that position), and
  all of them carry the same \<^verbatim>\<open>ingestion_time\<close> and the same \<^verbatim>\<open>retrieved_at\<close>: those
  of the one reading of the clock that the call makes.
\<close>

theorem transform_index_and_time:
  "\<exists>docs. transform x g (map PDict ds) endpoint w =
            (Inr (map PDict docs),
             (log_msg INFO ''Transforming %d records from %s''
                [PInt (int (length ds)), PStr endpoint] w)\<lparr>clock_reads := clock_reads w + 1\<rparr>) \<and>
     map (\<lambda>doc. dict_get doc ''record_index'') docs = map PInt [1..int (length ds)] \<and>
     map (\<lambda>doc. dict_get doc ''data'') docs = map (\<lambda>d. PDict (clean_record d)) ds \<and>
     list_all (\<lambda>doc. dict_get doc ''ingestion_time'' = PDatetime (clock x (clock_reads w)) \<and>
                     retrieved_at doc = PStr (isoformat x (clock x (clock_reads w)))) docs"
proof -
  let ?docs = "enriched x g endpoint (clock x (clock_reads w)) 1 ds"
  have "map (\<lambda>doc. dict_get doc ''record_index'') ?docs = map PInt [1..int (length ds)]"
    using enriched_index[of x g endpoint "clock x (clock_reads w)" 1 ds] by simp
  then show ?thesis
    using transform_dicts enriched_data enriched_time by blast
qed

theorem transform_index_and_time_witness:
  "\<exists>docs. fst (transform unreachable default_globals (map PDict example_records) ''/languages''
                 fresh_world) = Inr (map PDict docs) \<and>
     map (\<lambda>doc. dict_get doc ''record_index'') docs = [PInt 1, PInt 2] \<and>
     list_all (\<lambda>doc. dict_get doc ''ingestion_time'' = PDatetime (Instant 0)) docs"
proof -
  have l: "length example_records = 2" by (simp add: example_records_def)
  have c: "clock unreachable (clock_reads fresh_world) = Instant 0"
    by (simp add: unreachable_def fresh_world_def)
  have u: "[1..int 2] = [1, 2]" by (simp add: upto.simps)
  from transform_index_and_time[of unreachable default_globals example_records
      "''/languages''" fresh_world]
  obtain docs where
    t: "transform unreachable default_globals (map PDict example_records) ''/languages'' fresh_world
        = (Inr (map PDict docs),
           (log_msg INFO ''Transforming %d records from %s''
              [PInt (int (length example_records)), PStr ''/languages''] fresh_world)
              \<lparr>clock_reads := clock_reads fresh_world + 1\<rparr>)"
    and i: "map (\<lambda>doc. dict_get doc ''record_index'') docs =
              map PInt [1..int (length example_records)]"
    and n: "list_all (\<lambda>doc. dict_get doc ''ingestion_time'' =
                         PDatetime (clock unreachable (clock_reads fresh_world)) \<and>
                       retrieved_at doc =
                         PStr (isoformat unreachable (clock unreachable (clock_reads fresh_world))))
              docs"
    by blast
  from n have "list_all (\<lambda>doc. dict_get doc ''ingestion_time'' = PDatetime (Instant 0)) docs"
    unfolding c by (simp add: list_all_iff)
  moreover from i have "map (\<lambda>doc. dict_get doc ''record_index'') docs = [PInt 1, PInt 2]"
    unfolding l u by simp
  moreover from t have "fst (transform unreachable default_globals (map PDict example_records)
      ''/languages'' fresh_world) = Inr (map PDict docs)" by simp
  ultimately show ?thesis by (intro exI[of _ docs] conjI)
qed



text \<open>
  Claim C3 says that \<^verbatim>\<open>_source_id\<close> is the value of the key \<^verbatim>\<open>id\<close> whenever the
  record has that key, falsy values such as 0 included. What the code does: it takes
  \<^verbatim>\<open>rec.get("id") or rec.get("_id")\<close>, and \<^verbatim>\<open>or\<close> passes over a falsy left operand. So
  for the record \<^verbatim>\<open>{"id": 0, "_id": "abc"}\<close>, which cleaning leaves as it is, the
  document gets the \<^verbatim>\<open>_source_id\<close> \<^verbatim>\<open>"abc"\<close> and not 0, at every endpoint.
\<close>

theorem source_id_falsy_id:
  "\<exists>doc. fst (transform x g [PDict [(''id'', PInt 0), (''_id'', PStr ''abc'')]] endpoint w) = Inr [PDict doc] \<and>
     dict_get doc ''_source_id'' = PStr ''abc'' \<and> dict_get doc ''_source_id'' \<noteq> PInt 0"
proof -
  let ?d = "[(''id'', PInt 0), (''_id'', PStr ''abc'')]"
  let ?doc = "flatten endpoint ?d (envelope x g endpoint (clock x (clock_reads w)) 1 ?d)"
  have c: "clean_record ?d = ?d"
    by (simp add: clean_record_def py_in_def)
  have t: "fst (transform x g [PDict ?d] endpoint w) = Inr [PDict ?doc]"
    using transform_dicts[of x g "[?d]" endpoint w] by (simp add: c)
  have "py_or (dict_get ?d ''id'') (dict_get ?d ''_id'') = PStr ''abc''"
    by (simp add: py_or_def dict_get_def)
  then have s: "dict_get ?doc ''_source_id'' = PStr ''abc''"
    by (simp only: doc_fields)
  from t s show ?thesis by simp
qed

theorem source_id_falsy_id_witness:
  "\<exists>doc. fst (transform unreachable default_globals
                 [PDict [(''id'', PInt 0), (''_id'', PStr ''abc'')]] ''/tags'' fresh_world)
            = Inr [PDict doc] \<and>
     dict_get doc ''_source_id'' = PStr ''abc'' \<and> dict_get doc ''_source_id'' \<noteq> PInt 0"
  using source_id_falsy_id[of unreachable default_globals "''/tags''" fresh_world] .

section \<open>Properties of the collection name\<close>

lemma takeWhile_eq_replicate:
  "takeWhile (\<lambda>x. x = c) s = replicate (length (takeWhile (\<lambda>x. x = c) s)) c"
  by (induction s) auto

lemma lstrip_decomp: "\<exists>a. s = replicate a c @ lstrip c s"
proof -
  have "s = takeWhile (\<lambda>x. x = c) s @ dropWhile (\<lambda>x. x = c) s" by simp
  then show ?thesis unfolding lstrip_def using takeWhile_eq_replicate by metis
qed

lemma rstrip_decomp: "\<exists>b. s = rstrip c s @ replicate b c"
proof -
  obtain a where "rev s = replicate a c @ lstrip c (rev s)" using lstrip_decomp by blast
  then have "rev (rev s) = rev (replicate a c @ lstrip c (rev s))" by simp
  then have "s = rev (lstrip c (rev s)) @ replicate a c" by simp
  then show ?thesis unfolding rstrip_def lstrip_def by blast
qed

lemma lstrip_hd: "lstrip c s \<noteq> [] \<Longrightarrow> hd (lstrip c s) \<noteq> c"
  unfolding lstrip_def using hd_dropWhile[of "\<lambda>x. x = c" s] by simp

lemma rstrip_last: "rstrip c s \<noteq> [] \<Longrightarrow> last (rstrip c s) \<noteq> c"
  unfolding rstrip_def using hd_dropWhile[of "\<lambda>x. x = c" "rev s"] by (simp add: last_rev)

lemma rstrip_hd: "rstrip c s \<noteq> [] \<Longrightarrow> hd s \<noteq> c \<Longrightarrow> hd (rstrip c s) \<noteq> c"
proof -
  assume a: "rstrip c s \<noteq> []" and b: "hd s \<noteq> c"
  obtain n where "s = rstrip c s @ replicate n c" using rstrip_decomp by blast
  then have "hd s = hd (rstrip c s)" using a by (metis hd_append2)
  then show ?thesis using b by simp
qed

lemma rstrip_Nil: "rstrip c [] = []"
  by (simp add: rstrip_def)

lemma strip_decomp: "\<exists>a b. s = replicate a c @ strip c s @ replicate b c"
proof -
  obtain a where a: "s = replicate a c @ lstrip c s" using lstrip_decomp by blast
  obtain b where b: "lstrip c s = rstrip c (lstrip c s) @ replicate b c"
    using rstrip_decomp by blast
  have "s = replicate a c @ strip c s @ replicate b c"
    unfolding strip_def using a b by metis
  then show ?thesis by blast
qed

lemma strip_ends: "strip c s = [] \<or> (hd (strip c s) \<noteq> c \<and> last (strip c s) \<noteq> c)"
proof (cases "strip c s = []")
  case True
  then show ?thesis by simp
next
  case False
  then have ne: "rstrip c (lstrip c s) \<noteq> []" by (simp add: strip_def)
  then have "lstrip c s \<noteq> []" using rstrip_Nil by metis
  then have "hd (lstrip c s) \<noteq> c" by (rule lstrip_hd)
  with ne have "hd (strip c s) \<noteq> c" unfolding strip_def by (rule rstrip_hd)
  moreover have "last (strip c s) \<noteq> c" unfolding strip_def using ne by (rule rstrip_last)
  ultimately show ?thesis by simp
qed

lemma endpoint_to_collection_examples:
  "endpoint_to_collection ''/tags'' = ''tags_raw''"
  "endpoint_to_collection ''/'' = ''root_raw''"
  "endpoint_to_collection [] = ''root_raw''"
  "endpoint_to_collection ''/lists/42/'' = ''lists_42_raw''"
  by (simp_all add: endpoint_to_collection_def strip_def lstrip_def rstrip_def replace_def)

text \<open>
  Claim C8. \<^verbatim>\<open>endpoint_to_collection\<close> is a function of the endpoint alone. Every
  endpoint is a run of separators, a core that neither starts nor ends with a separator,
  and a run of separators; the collection name is the core with each separator inside it
  replaced by \<^verbatim>\<open>_\<close>, or \<^verbatim>\<open>root\<close> when the core is empty, followed by \<^verbatim>\<open>_raw\<close>. So
  \<^verbatim>\<open>/tags\<close> gives \<^verbatim>\<open>tags_raw\<close>, and \<^verbatim>\<open>/\<close> and the empty endpoint give \<^verbatim>\<open>root_raw\<close>.
\<close>

theorem endpoint_to_collection_spec:
  "(\<exists>a b core.
      e = replicate a CHR ''/'' @ core @ replicate b CHR ''/'' \<and>
      (core = [] \<or> (hd core \<noteq> CHR ''/'' \<and> last core \<noteq> CHR ''/'')) \<and>
      endpoint_to_collection e =
        (if core = [] then ''root''
         else map (\<lambda>x. if x = CHR ''/'' then CHR ''_'' else x) core) @ ''_raw'') \<and>
   endpoint_to_collection ''/tags'' = ''tags_raw'' \<and>
   endpoint_to_collection ''/'' = ''root_raw'' \<and>
   endpoint_to_collection [] = ''root_raw''"
proof -
  obtain a b where d: "e = replicate a CHR ''/'' @ strip CHR ''/'' e @ replicate b CHR ''/''"
    using strip_decomp by blast
  have r: "endpoint_to_collection e =
      (if strip CHR ''/'' e = [] then ''root''
       else map (\<lambda>x. if x = CHR ''/'' then CHR ''_'' else x) (strip CHR ''/'' e)) @ ''_raw''"
    by (simp add: endpoint_to_collection_def replace_def Let_def)
  from d strip_ends[of "CHR ''/''" e] r
  have "\<exists>a b core.
      e = replicate a CHR ''/'' @ core @ replicate b CHR ''/'' \<and>
      (core = [] \<or> (hd core \<noteq> CHR ''/'' \<and> last core \<noteq> CHR ''/'')) \<and>
      endpoint_to_collection e =
        (if core = [] then ''root''
         else map (\<lambda>x. if x = CHR ''/'' then CHR ''_'' else x) core) @ ''_raw''"
    by blast
  then show ?thesis using endpoint_to_collection_examples by simp
qed

theorem endpoint_to_collection_spec_witness:
  "(\<exists>a b core.
      ''/lists/42/'' = replicate a CHR ''/'' @ core @ replicate b CHR ''/'' \<and>
      (core = [] \<or> (hd core \<noteq> CHR ''/'' \<and> last core \<noteq> CHR ''/'')) \<and>
      endpoint_to_collection ''/lists/42/'' =
        (if core = [] then ''root''
         else map (\<lambda>x. if x = CHR ''/'' then CHR ''_'' else x) core) @ ''_raw'') \<and>
   endpoint_to_collection ''/lists/42/'' = ''lists_42_raw''"
  using endpoint_to_collection_spec[of "''/lists/42/''"] endpoint_to_collection_examples(4)
  by blast

section \<open>The transformer leaves the objects of its caller alone\<close>

text \<open>
  The store only grows at its end, and the transformer writes only to addresses it has
  allocated itself: the store before the call stays a prefix of the store.
\<close>

lemma prefix_alloc: "prefix h0 h \<Longrightarrow> prefix h0 (snd (alloc ob h))"
  by (simp add: alloc_def)

lemma prefix_update: "prefix h0 h \<Longrightarrow> length h0 \<le> a \<Longrightarrow> prefix h0 (h[a := ob])"
  by (auto simp: prefix_def list_update_append)

lemma prefix_set_at: "prefix h0 h \<Longrightarrow> length h0 \<le> a \<Longrightarrow> prefix h0 (set_at h a k v)"
  by (simp add: set_at_def prefix_update split: option.splits hobj.splits)

lemma prefix_append_at: "prefix h0 h \<Longrightarrow> length h0 \<le> a \<Longrightarrow> prefix h0 (append_at h a v)"
  by (simp add: append_at_def prefix_update split: option.splits hobj.splits)

lemma prefix_flatten:
  "prefix h0 h \<Longrightarrow> length h0 \<le> doc \<Longrightarrow> prefix h0 (flatten_store endpoint rec doc h)"
  by (simp add: flatten_store_def assign2_def Let_def prefix_set_at)

lemma clean_record_store_frame:
  "clean_record_store h r = Inr (rec, h1) \<Longrightarrow> prefix h0 h \<Longrightarrow> prefix h0 h1"
  by (auto simp: clean_record_store_def alloc_def split: hval.splits option.splits hobj.splits)

lemma envelope_store_frame:
  "envelope_store x g endpoint now i rec h = (doc, h2) \<Longrightarrow> prefix h0 h \<Longrightarrow>
   prefix h0 h2 \<and> length h0 \<le> doc"
  by (auto simp: envelope_store_def alloc_def Let_def dest: prefix_length_le)

lemma prefix_deref: "prefix h0 h \<Longrightarrow> a < length h0 \<Longrightarrow> deref h a = deref h0 a"
  by (auto simp: deref_def prefix_def nth_append)

lemma prefix_items_at: "prefix h0 h \<Longrightarrow> a < length h0 \<Longrightarrow> items_at h a = items_at h0 a"
  by (simp add: items_at_def prefix_deref)

text \<open>What an allocation, an item assignment and an append leave in place.\<close>

lemma length_set_at: "length (set_at h a k v) = length h"
  by (simp add: set_at_def split: option.splits hobj.splits)

lemma length_append_at: "length (append_at h a v) = length h"
  by (simp add: append_at_def split: option.splits hobj.splits)

lemma length_flatten: "length (flatten_store endpoint rec doc h) = length h"
  by (simp add: flatten_store_def assign2_def Let_def length_set_at)

lemma deref_alloc_old: "a < length h \<Longrightarrow> deref (h @ [ob]) a = deref h a"
  by (simp add: deref_def nth_append)

lemma deref_alloc_new: "deref (h @ [ob]) (length h) = Some ob"
  by (simp add: deref_def)

lemma deref_set_at_other: "a \<noteq> b \<Longrightarrow> deref (set_at h a k v) b = deref h b"
  by (simp add: set_at_def deref_def split: option.splits hobj.splits)

lemma deref_set_at_same:
  "deref h a = Some (HDict d) \<Longrightarrow> deref (set_at h a k v) a = Some (HDict (AList.update k v d))"
  by (auto simp: set_at_def deref_def split: if_splits)

lemma deref_append_at_other: "a \<noteq> b \<Longrightarrow> deref (append_at h a v) b = deref h b"
  by (simp add: append_at_def deref_def split: option.splits hobj.splits)

lemma deref_append_at_same:
  "deref h a = Some (HList xs) \<Longrightarrow> deref (append_at h a v) a = Some (HList (xs @ [v]))"
  by (auto simp: append_at_def deref_def split: if_splits)

lemma deref_flatten_other: "doc \<noteq> b \<Longrightarrow> deref (flatten_store endpoint rec doc h) b = deref h b"
  by (simp add: flatten_store_def assign2_def Let_def deref_set_at_other)

lemma deref_flatten_same:
  assumes "deref h doc = Some (HDict d)"
  shows "\<exists>d'. deref (flatten_store endpoint rec doc h) doc = Some (HDict d') \<and>
              map_of d' ''data'' = map_of d ''data''"
proof -
  have one: "\<And>h d k v. deref h doc = Some (HDict d) \<Longrightarrow> k \<noteq> ''data'' \<Longrightarrow>
      \<exists>d'. deref (set_at h doc k v) doc = Some (HDict d') \<and> map_of d' ''data'' = map_of d ''data''"
    by (simp add: deref_set_at_same update_conv')
  have two: "\<And>k1 f1 k2 f2. k1 \<noteq> ''data'' \<Longrightarrow> k2 \<noteq> ''data'' \<Longrightarrow>
      \<exists>d'. deref (assign2 h doc rec k1 f1 k2 f2) doc = Some (HDict d') \<and>
           map_of d' ''data'' = map_of d ''data''"
  proof -
    fix k1 f1 k2 f2 :: string
    assume k: "k1 \<noteq> ''data''" "k2 \<noteq> ''data''"
    let ?h1 = "set_at h doc k1 (get_at h rec f1)"
    from one[OF assms k(1)] obtain d1 where d1: "deref ?h1 doc = Some (HDict d1)"
      "map_of d1 ''data'' = map_of d ''data''" by blast
    from one[OF d1(1) k(2)] obtain d2 where
      "deref (set_at ?h1 doc k2 (get_at ?h1 rec f2)) doc = Some (HDict d2)"
      "map_of d2 ''data'' = map_of d1 ''data''" by blast
    then show "\<exists>d'. deref (assign2 h doc rec k1 f1 k2 f2) doc = Some (HDict d') \<and>
           map_of d' ''data'' = map_of d ''data''"
      using d1(2) by (simp add: assign2_def Let_def)
  qed
  show ?thesis
    unfolding flatten_store_def using one[OF assms] two assms by simp
qed

lemma doc_ok_mono:
  assumes "doc_ok n h t v" and "length h \<le> length h'"
    and "\<And>a. a < length h \<Longrightarrow> a \<noteq> t \<Longrightarrow> deref h' a = deref h a"
  shows "doc_ok n h' t v"
proof -
  from assms(1) obtain doc d c where v: "v = HRef doc" "n \<le> doc" "doc < length h" "doc \<noteq> t"
    "deref h doc = Some (HDict d)" "map_of d ''data'' = Some (HRef c)" "n \<le> c"
    unfolding doc_ok_def by blast
  have "deref h' doc = Some (HDict d)" using assms(3)[OF v(3,4)] v(5) by simp
  moreover have "doc < length h'" using v(3) assms(2) by simp
  ultimately show ?thesis unfolding doc_ok_def using v by blast
qed

lemma docs_inv_fresh: "docs_inv n h t \<Longrightarrow> fresh_docs n h t"
  by (auto simp: docs_inv_def fresh_docs_def items_at_def doc_ok_def get_at_def list_all_iff
      split: option.splits hobj.splits)

lemma step_inv:
  assumes inv: "docs_inv n h t"
    and c: "clean_record_store h r = Inr (rec, h1)"
    and e: "envelope_store x g endpoint now i rec h1 = (doc, h2)"
    and n: "n \<le> length h"
  shows "docs_inv n (append_at (flatten_store endpoint rec doc h2) t (HRef doc)) t"
proof -
  from c obtain ob where h1: "h1 = h @ [ob]" and rec: "rec = length h"
    by (auto simp: clean_record_store_def alloc_def split: hval.splits option.splits hobj.splits)
  from e obtain src dd where h2: "h2 = h1 @ [src] @ [HDict dd]" and doc: "doc = Suc (length h1)"
    and dd: "map_of dd ''data'' = Some (HRef rec)"
    by (auto simp: envelope_store_def alloc_def Let_def)
  let ?h3 = "flatten_store endpoint rec doc h2"
  let ?h4 = "append_at ?h3 t (HRef doc)"
  from inv obtain xs where t: "n \<le> t" "t < length h" and xs: "deref h t = Some (HList xs)"
    and all: "list_all (doc_ok n h t) xs"
    by (auto simp: docs_inv_def split: option.splits hobj.splits)
  have len: "length ?h4 = length h + 3"
    by (simp add: length_append_at length_flatten h2 h1)
  have tdoc: "t \<noteq> doc" using t doc h1 by simp
  have old: "deref ?h4 a = deref h a" if "a < length h" "a \<noteq> t" for a
  proof -
    have "a \<noteq> doc" using that doc h1 by simp
    then have "deref ?h4 a = deref h2 a"
      using that by (simp add: deref_append_at_other deref_flatten_other)
    also have "\<dots> = deref h a" using that by (simp add: h2 h1 deref_def nth_append)
    finally show ?thesis .
  qed
  have "deref h2 t = Some (HList xs)" using xs t by (simp add: h2 h1 deref_def nth_append)
  then have "deref ?h3 t = Some (HList xs)" using tdoc by (simp add: deref_flatten_other)
  then have t4: "deref ?h4 t = Some (HList (xs @ [HRef doc]))"
    by (rule deref_append_at_same)
  have "deref h2 doc = Some (HDict dd)" by (simp add: h2 doc deref_def nth_append)
  from deref_flatten_same[OF this] obtain d' where
    "deref ?h3 doc = Some (HDict d')" "map_of d' ''data'' = map_of dd ''data''" by blast
  then have d4: "deref ?h4 doc = Some (HDict d')" "map_of d' ''data'' = Some (HRef rec)"
    using tdoc dd by (simp_all add: deref_append_at_other)
  have dlt: "doc < length ?h4" unfolding len by (simp add: doc h1)
  have "n \<le> doc" "n \<le> rec" using n by (simp_all add: doc h1 rec)
  then have new: "doc_ok n ?h4 t (HRef doc)"
    unfolding doc_ok_def using d4 tdoc dlt by blast
  have hl: "length h \<le> length ?h4" unfolding len by simp
  have olds: "list_all (doc_ok n ?h4 t) xs"
    unfolding list_all_iff
  proof
    fix v assume "v \<in> set xs"
    then have "doc_ok n h t v" using all by (simp add: list_all_iff)
    then show "doc_ok n ?h4 t v" using hl old by (rule doc_ok_mono)
  qed
  show ?thesis
    using t t4 new olds by (simp add: docs_inv_def len)
qed

text \<open>
  The loop ends, keeps the old store as a prefix, and on success returns the list it
  was given to fill, with the invariant of the documents.
\<close>

lemma loop_inv:
  assumes "prefix h0 h" and "records < length h0" and "docs_inv (length h0) h transformed"
  shows "\<exists>r h'. transform_store_loop x g endpoint now records transformed pos h = Some (r, h') \<and>
           prefix h0 h' \<and>
           (case r of Inl e \<Rightarrow> True
                    | Inr t \<Rightarrow> t = transformed \<and> docs_inv (length h0) h' transformed)"
  using assms(1,3)
proof (induction "length (items_at h0 records) - pos" arbitrary: pos h)
  case 0
  then have "\<not> pos < length (items_at h records)"
    using assms(2) by (simp add: prefix_items_at)
  then show ?case using "0.prems"
    by (subst transform_store_loop.simps) simp
next
  case (Suc n)
  then have lt: "pos < length (items_at h records)"
    using assms(2) by (simp add: prefix_items_at)
  show ?case
  proof (cases "clean_record_store h (items_at h records ! pos)")
    case (Inl e)
    then show ?thesis using lt Suc.prems
      by (subst transform_store_loop.simps) simp
  next
    case (Inr p)
    obtain rec h1 where p: "p = (rec, h1)" by (cases p)
    obtain doc h2 where e: "envelope_store x g endpoint now (int pos + 1) rec h1 = (doc, h2)"
      by (cases "envelope_store x g endpoint now (int pos + 1) rec h1")
    have c: "clean_record_store h (items_at h records ! pos) = Inr (rec, h1)"
      using Inr p by simp
    have 1: "prefix h0 h1" using c Suc.prems(1) clean_record_store_frame by blast
    have 2: "prefix h0 h2" "length h0 \<le> doc" using envelope_store_frame[OF e 1] by simp_all
    have t: "length h0 \<le> transformed" using Suc.prems(2) by (simp add: docs_inv_def)
    let ?h4 = "append_at (flatten_store endpoint rec doc h2) transformed (HRef doc)"
    have 4: "prefix h0 ?h4"
      using 2 t by (simp add: prefix_append_at prefix_flatten)
    have 5: "docs_inv (length h0) ?h4 transformed"
      using Suc.prems(2) c e prefix_length_le[OF Suc.prems(1)] by (rule step_inv)
    have "n = length (items_at h0 records) - (pos + 1)" using Suc.hyps(2) by simp
    from Suc.hyps(1)[OF this 4 5]
    obtain r h' where "transform_store_loop x g endpoint now records transformed (pos + 1) ?h4
        = Some (r, h')" and "prefix h0 h'"
        and "case r of Inl e \<Rightarrow> True
                     | Inr t \<Rightarrow> t = transformed \<and> docs_inv (length h0) h' transformed"
      by blast
    then show ?thesis using lt c e
      by (subst transform_store_loop.simps) simp
  qed
qed

text \<open>
  Claim C10. \<^verbatim>\<open>transform\<close> does not change its inputs. On the store: a call of
  \<^verbatim>\<open>transform\<close> whose argument is an object of the store returns (with a result or an
  exception), and every object that was in the store before the call, the list of
  records and each record among them, is the same afterwards. On success the result is
  a new list of new documents, and the \<^verbatim>\<open>data\<close> field of each document refers to a new
  object (the dict that cleaning built), not to a record of the caller.
\<close>

theorem transform_store_frame:
  assumes "records < length h"
  shows "\<exists>r h' w'. transform_store x g records endpoint h w = Some (r, h', w') \<and>
           length h \<le> length h' \<and> (\<forall>a<length h. h' ! a = h ! a) \<and>
           (case r of Inl e \<Rightarrow> True
                    | Inr t \<Rightarrow> length h \<le> t \<and> fresh_docs (length h) h' t)"
proof -
  let ?now = "clock x (clock_reads (log_msg INFO ''Transforming %d records from %s''
                 [PInt (int (length (items_at h records))), PStr endpoint] w))"
  have p0: "prefix h (h @ [HList []])" by simp
  have i0: "docs_inv (length h) (h @ [HList []]) (length h)"
    by (simp add: docs_inv_def deref_def)
  from loop_inv[OF p0 assms i0, of x g endpoint ?now 0]
  obtain r h' where l: "transform_store_loop x g endpoint ?now records (length h) 0 (h @ [HList []])
      = Some (r, h')" and p: "prefix h h'"
    and f: "case r of Inl e \<Rightarrow> True
                    | Inr t \<Rightarrow> t = length h \<and> docs_inv (length h) h' (length h)"
    by blast
  from p have a: "length h \<le> length h'" "\<forall>a<length h. h' ! a = h ! a"
    by (auto simp: prefix_def nth_append)
  from f have b: "case r of Inl e \<Rightarrow> True
                    | Inr t \<Rightarrow> length h \<le> t \<and> fresh_docs (length h) h' t"
    by (auto split: sum.splits dest: docs_inv_fresh)
  have "transform_store x g records endpoint h w =
      Some (r, h', (log_msg INFO ''Transforming %d records from %s''
                 [PInt (int (length (items_at h records))), PStr endpoint] w)
               \<lparr>clock_reads := clock_reads w + 1\<rparr>)"
    using l by (simp add: transform_store_def alloc_def Let_def log_msg_def)
  then show ?thesis using a b by blast
qed

theorem transform_store_frame_witness:
  "2 < length example_store \<and>
   (\<exists>r h' w'. transform_store unreachable default_globals 2 ''/languages'' example_store fresh_world
        = Some (r, h', w') \<and>
      length example_store \<le> length h' \<and>
      (\<forall>a<length example_store. h' ! a = example_store ! a) \<and>
      (case r of Inl e \<Rightarrow> True
               | Inr t \<Rightarrow> length example_store \<le> t \<and> fresh_docs (length example_store) h' t))"
proof -
  have h: "2 < length example_store" by (simp add: example_store_def)
  show ?thesis using h transform_store_frame[OF h] by blast
qed

section \<open>The two models of the transformer agree\<close>

text \<open>
  Reading a value depends only on the objects it reaches: it survives every change of
  the store that keeps the objects outside \<open>A\<close>, it does not reach an address beyond the
  end of the store, and a reading that avoids some addresses is a reading.
\<close>

lemma reads_frame:
  assumes "reads A h v p"
    and "\<And>a ob. a \<notin> A \<Longrightarrow> deref h a = Some ob \<Longrightarrow> deref h' a = Some ob"
  shows "reads A h' v p"
  using assms(1)
proof (induction rule: reads.induct)
  case (7 a xs ps)
  have "list_all2 (reads A h') xs ps"
    using 7(3) by (rule list_all2_mono) simp
  then show ?case using 7(1) assms(2)[OF 7(1,2)] by (auto intro: reads.intros)
next
  case (8 a d e)
  have "list_all2 (\<lambda>kv kp. fst kv = fst kp \<and> reads A h' (snd kv) (snd kp)) d e"
    using 8(3) by (rule list_all2_mono) simp
  then show ?case using 8(1) assms(2)[OF 8(1,2)] by (auto intro: reads.intros)
qed (auto intro: reads.intros)

lemma reads_avoid:
  assumes "reads A h v p" and "length h \<le> t"
  shows "reads (insert t A) h v p"
  using assms(1)
proof (induction rule: reads.induct)
  case (7 a xs ps)
  have "list_all2 (reads (insert t A) h) xs ps"
    using 7(3) by (rule list_all2_mono) simp
  moreover have "a \<noteq> t" using 7(2) assms(2) by (auto simp: deref_def split: if_splits)
  ultimately show ?case using 7(1,2) by (auto intro: reads.intros)
next
  case (8 a d e)
  have "list_all2 (\<lambda>kv kp. fst kv = fst kp \<and> reads (insert t A) h (snd kv) (snd kp)) d e"
    using 8(3) by (rule list_all2_mono) simp
  moreover have "a \<noteq> t" using 8(2) assms(2) by (auto simp: deref_def split: if_splits)
  ultimately show ?case using 8(1,2) by (auto intro: reads.intros)
qed (auto intro: reads.intros)

lemma reads_drop_avoid:
  assumes "reads A h v p"
  shows "reads {} h v p"
  using assms
proof (induction rule: reads.induct)
  case (7 a xs ps)
  have "list_all2 (reads {} h) xs ps"
    using 7(3) by (rule list_all2_mono) simp
  then show ?case using 7(2) by (auto intro: reads.intros)
next
  case (8 a d e)
  have "list_all2 (\<lambda>kv kp. fst kv = fst kp \<and> reads {} h (snd kv) (snd kp)) d e"
    using 8(3) by (rule list_all2_mono) simp
  then show ?case using 8(2) by (auto intro: reads.intros)
qed (auto intro: reads.intros)

lemma items_rel_frame:
  assumes "items_rel A h d e"
    and "\<And>a ob. a \<notin> A \<Longrightarrow> deref h a = Some ob \<Longrightarrow> deref h' a = Some ob"
  shows "items_rel A h' d e"
  using assms(1) unfolding items_rel_def
  by (rule list_all2_mono) (auto intro: reads_frame assms(2))

text \<open>The tests of the store model agree with those of the value model.\<close>

lemma store_eq_list_Nil: "store_eq_list h xs [] = (xs = [])"
  by simp

lemma reads_removable:
  assumes "reads A h v p"
  shows "store_in h v [PNone, PStr [], PList [], PDict [], PStr ''null''] =
         py_in p [PNone, PStr [], PList [], PDict [], PStr ''null'']"
  using assms
  by (cases rule: reads.cases)
     (auto simp: store_in_def py_in_def py_eq_list_Nil py_eq_items_Nil)

lemma reads_truthy:
  assumes "reads A h v p"
  shows "store_truthy h v = truthy p"
  using assms by (cases rule: reads.cases) auto

lemma items_rel_lookup:
  assumes "items_rel A h d e"
  shows "reads A h (case map_of d k of None \<Rightarrow> HNone | Some v \<Rightarrow> v) (dict_get e k)"
  using assms unfolding items_rel_def dict_get_def
  by (induction rule: list_all2_induct) (auto intro: reads.intros)

lemma items_rel_filter:
  assumes "items_rel A h d e"
  shows "items_rel A h
           (filter (\<lambda>(k, v). \<not> store_in h v [PNone, PStr [], PList [], PDict [], PStr ''null'']) d)
           (clean_record e)"
  using assms unfolding items_rel_def clean_record_def
  by (induction rule: list_all2_induct) (auto simp: reads_removable case_prod_unfold)

lemma items_rel_update:
  assumes "items_rel A h d e" and "reads A h v p"
  shows "items_rel A h (AList.update k v d) (dict_set e k p)"
  using assms unfolding items_rel_def dict_set_def
  by (induction rule: list_all2_induct) auto

lemma get_at_deref: "deref h a = deref h' a \<Longrightarrow> get_at h a k = get_at h' a k"
  by (simp add: get_at_def)

lemma get_at_reads:
  assumes "deref h a = Some (HDict d)" and "items_rel A h d e"
  shows "reads A h (get_at h a k) (dict_get e k)"
  using items_rel_lookup[OF assms(2), of k] assms(1) by (simp add: get_at_def)

lemma store_or_reads:
  assumes "reads A h a p" and "reads A h b q"
  shows "reads A h (store_or h a b) (py_or p q)"
  using assms by (simp add: store_or_def py_or_def reads_truthy)

lemma set_at_rel:
  assumes "deref h doc = Some (HDict d1)" and "items_rel A hb d1 v1" and "reads A hb v p"
  shows "\<exists>d2. deref (set_at h doc k v) doc = Some (HDict d2) \<and> items_rel A hb d2 (dict_set v1 k p)"
  using assms by (simp add: deref_set_at_same items_rel_update)

lemma flatten_rel:
  assumes doc: "deref h doc = Some (HDict dd)" and rel: "items_rel A hb dd dv"
    and ne: "rec \<noteq> doc"
    and get: "\<And>k. reads A hb (get_at h rec k) (dict_get rv k)"
  shows "\<exists>d'. deref (flatten_store endpoint rec doc h) doc = Some (HDict d') \<and>
              items_rel A hb d' (flatten endpoint rv dv)"
proof -
  have one: "\<exists>d'. deref (set_at h doc k (get_at h rec f)) doc = Some (HDict d') \<and>
                 items_rel A hb d' (dict_set dv k (dict_get rv f))" for k f
    using set_at_rel[OF doc rel get] .
  have two: "\<exists>d'. deref (assign2 h doc rec k1 f1 k2 f2) doc = Some (HDict d') \<and>
                 items_rel A hb d' (dict_set (dict_set dv k1 (dict_get rv f1)) k2 (dict_get rv f2))"
    for k1 f1 k2 f2
  proof -
    let ?h1 = "set_at h doc k1 (get_at h rec f1)"
    from one[of k1 f1] obtain d1 where d1: "deref ?h1 doc = Some (HDict d1)"
      "items_rel A hb d1 (dict_set dv k1 (dict_get rv f1))" by blast
    have "deref ?h1 rec = deref h rec" using ne by (simp add: deref_set_at_other)
    then have "get_at ?h1 rec f2 = get_at h rec f2" by (rule get_at_deref)
    then have "reads A hb (get_at ?h1 rec f2) (dict_get rv f2)" using get by simp
    from set_at_rel[OF d1 this, of k2] show ?thesis by (simp add: assign2_def Let_def)
  qed
  show ?thesis
    unfolding flatten_store_def flatten_def using one two doc rel by simp
qed

lemma step_refines:
  assumes r: "reads {t} h r (PDict d)"
    and tl: "t < length h"
    and xs: "deref h t = Some (HList xs)"
    and acc: "list_all2 (reads {t} h) xs acc"
  shows "\<exists>rec h1 doc h2.
           clean_record_store h r = Inr (rec, h1) \<and>
           envelope_store x g endpoint now i rec h1 = (doc, h2) \<and>
           deref (append_at (flatten_store endpoint rec doc h2) t (HRef doc)) t =
             Some (HList (xs @ [HRef doc])) \<and>
           list_all2 (reads {t} (append_at (flatten_store endpoint rec doc h2) t (HRef doc)))
             (xs @ [HRef doc])
             (acc @ [PDict (flatten endpoint (clean_record d)
                              (envelope x g endpoint now i (clean_record d)))])"
proof -
  from r obtain a hd where ra: "r = HRef a" and hd: "deref h a = Some (HDict hd)"
    and rel: "items_rel {t} h hd d"
    by (cases rule: reads.cases) (auto simp: items_rel_def)
  let ?lits = "[PNone, PStr [], PList [], PDict [], PStr ''null'']"
  let ?cd = "filter (\<lambda>(k, v). \<not> store_in h v ?lits) hd"
  let ?rv = "clean_record d"
  let ?c = "length h"
  let ?h1 = "h @ [HDict ?cd]"
  have c: "clean_record_store h r = Inr (?c, ?h1)"
    by (simp add: clean_record_store_def ra hd alloc_def)
  have f1: "\<And>a ob. deref h a = Some ob \<Longrightarrow> deref ?h1 a = Some ob"
    by (auto simp: deref_def nth_append split: if_splits)
  have crel: "items_rel {t} ?h1 ?cd ?rv"
    using items_rel_filter[OF rel] f1 by (rule items_rel_frame)
  have dc: "deref ?h1 ?c = Some (HDict ?cd)" by (simp add: deref_def)
  have get1: "reads {t} ?h1 (get_at ?h1 ?c k) (dict_get ?rv k)" for k
    using dc crel by (rule get_at_reads)
  let ?sid = "store_or ?h1 (get_at ?h1 ?c ''id'') (get_at ?h1 ?c ''_id'')"
  have sid: "reads {t} ?h1 ?sid (py_or (dict_get ?rv ''id'') (dict_get ?rv ''_id''))"
    using get1 get1 by (rule store_or_reads)
  let ?so = "HDict [(''api_base'', HStr (BASE_URL g)), (''endpoint'', HStr endpoint),
                    (''retrieved_at'', HStr (isoformat x now))]"
  let ?hb = "?h1 @ [?so]"
  let ?src = "Suc ?c"
  let ?dd = "[(''_source_id'', ?sid), (''record_index'', HInt i),
              (''endpoint'', HStr (strip CHR ''/'' endpoint)),
              (''ingestion_time'', HDatetime now),
              (''schema_version'', HFloat (Fin 1)),
              (''source'', HRef ?src), (''data'', HRef ?c)]"
  let ?h2 = "?hb @ [HDict ?dd]"
  let ?doc = "Suc (Suc ?c)"
  have e: "envelope_store x g endpoint now i ?c ?h1 = (?doc, ?h2)"
    by (simp add: envelope_store_def alloc_def Let_def)
  have fb: "\<And>a ob. deref ?h1 a = Some ob \<Longrightarrow> deref ?hb a = Some ob"
    by (auto simp: deref_def nth_append split: if_splits)
  have ct: "?c \<noteq> t" "?src \<noteq> t" "?doc \<noteq> t" using tl by simp_all
  have rc: "reads {t} ?hb (HRef ?c) (PDict ?rv)"
  proof -
    have "deref ?hb ?c = Some (HDict ?cd)" by (simp add: deref_def nth_append)
    moreover have "items_rel {t} ?hb ?cd ?rv" using crel fb by (rule items_rel_frame)
    ultimately show ?thesis using ct(1) by (auto intro: reads.intros simp: items_rel_def)
  qed
  have rs: "reads {t} ?hb (HRef ?src)
              (PDict [(''api_base'', PStr (BASE_URL g)), (''endpoint'', PStr endpoint),
                      (''retrieved_at'', PStr (isoformat x now))])"
  proof -
    have "deref ?hb ?src = Some ?so" by (simp add: deref_def nth_append)
    then show ?thesis using ct(2) by (auto intro!: reads.intros)
  qed
  have rsid: "reads {t} ?hb ?sid (py_or (dict_get ?rv ''id'') (dict_get ?rv ''_id''))"
    using sid fb by (rule reads_frame)
  have drel: "items_rel {t} ?hb ?dd (envelope x g endpoint now i ?rv)"
    unfolding items_rel_def envelope_def using rc rs rsid by (auto intro: reads.intros)
  have d2: "deref ?h2 ?doc = Some (HDict ?dd)" by (simp add: deref_def nth_append)
  have getb: "reads {t} ?hb (get_at ?h2 ?c k) (dict_get ?rv k)" for k
  proof -
    have "deref ?h2 ?c = deref ?h1 ?c" by (simp add: deref_def nth_append)
    then have "get_at ?h2 ?c k = get_at ?h1 ?c k" by (rule get_at_deref)
    then show ?thesis using reads_frame[OF get1[of k] fb] by simp
  qed
  let ?h3 = "flatten_store endpoint ?c ?doc ?h2"
  let ?h4 = "append_at ?h3 t (HRef ?doc)"
  from flatten_rel[OF d2 drel _ getb, of endpoint]
  obtain d' where d3: "deref ?h3 ?doc = Some (HDict d')"
    and d'rel: "items_rel {t} ?hb d' (flatten endpoint ?rv (envelope x g endpoint now i ?rv))"
    by auto
  have off: "deref ?h4 b = deref ?hb b" if "b \<noteq> t" "b < length ?hb" for b
  proof -
    have "b \<noteq> ?doc" using that by simp
    then have "deref ?h4 b = deref ?h2 b"
      using that(1) by (simp add: deref_append_at_other deref_flatten_other)
    also have "\<dots> = deref ?hb b" using that(2) by (rule deref_alloc_old)
    finally show ?thesis .
  qed
  have fr4: "\<And>b ob. b \<notin> {t} \<Longrightarrow> deref ?hb b = Some ob \<Longrightarrow> deref ?h4 b = Some ob"
  proof -
    fix b ob assume "b \<notin> {t}" and s: "deref ?hb b = Some ob"
    then have "b \<noteq> t" by simp
    moreover have "b < length ?hb" using s by (auto simp: deref_def split: if_splits)
    ultimately show "deref ?h4 b = Some ob" using off s by simp
  qed
  have fr04: "\<And>b ob. b \<notin> {t} \<Longrightarrow> deref h b = Some ob \<Longrightarrow> deref ?h4 b = Some ob"
    using fr4 fb f1 by blast
  have "deref ?h4 ?doc = Some (HDict d')"
    using d3 ct(3) by (simp add: deref_append_at_other)
  moreover have "items_rel {t} ?h4 d' (flatten endpoint ?rv (envelope x g endpoint now i ?rv))"
    using d'rel fr4 by (rule items_rel_frame)
  ultimately have new: "reads {t} ?h4 (HRef ?doc)
      (PDict (flatten endpoint ?rv (envelope x g endpoint now i ?rv)))"
    using ct(3) by (auto intro: reads.intros simp: items_rel_def)
  have olds: "list_all2 (reads {t} ?h4) xs acc"
    using acc
  proof (rule list_all2_mono)
    fix v p
    assume "reads {t} h v p"
    then show "reads {t} ?h4 v p" by (rule reads_frame) (rule fr04)
  qed
  have "deref ?h2 t = Some (HList xs)" using xs tl by (simp add: deref_def nth_append)
  then have "deref ?h3 t = Some (HList xs)" using ct(3) by (simp add: deref_flatten_other)
  then have t4: "deref ?h4 t = Some (HList (xs @ [HRef ?doc]))"
    by (rule deref_append_at_same)
  have "list_all2 (reads {t} ?h4) (xs @ [HRef ?doc])
      (acc @ [PDict (flatten endpoint ?rv (envelope x g endpoint now i ?rv))])"
    using olds new by (simp add: list_all2_appendI)
  then show ?thesis using c e t4 by blast
qed

lemma prefix_deref_Some: "prefix h0 h \<Longrightarrow> deref h0 a = Some ob \<Longrightarrow> deref h a = Some ob"
  by (auto simp: deref_def prefix_def nth_append split: if_splits)

lemma loop_refines:
  assumes items: "deref h0 records = Some (HList items)"
    and irel: "list_all2 (reads {t} h0) items (map PDict ds)"
    and th0: "length h0 \<le> t"
    and p: "prefix h0 h"
    and xs: "deref h t = Some (HList xs)"
    and acc: "list_all2 (reads {t} h) xs acc"
    and pos: "pos \<le> length ds"
  shows "\<exists>h' ys. transform_store_loop x g endpoint now records t pos h = Some (Inr t, h') \<and>
           deref h' t = Some (HList ys) \<and>
           list_all2 (reads {t} h') ys
             (acc @ map PDict (enriched x g endpoint now (int pos + 1) (drop pos ds)))"
  using p xs acc pos
proof (induction "length ds - pos" arbitrary: pos h xs acc)
  case 0
  have len: "length items = length ds" using irel by (auto dest: list_all2_lengthD)
  have "items_at h records = items"
    using prefix_deref_Some[OF "0.prems"(1) items] by (simp add: items_at_def)
  then have "\<not> pos < length (items_at h records)" using 0 len by simp
  moreover have "drop pos ds = []" using 0 by simp
  ultimately show ?case using "0.prems"(2,3)
    by (subst transform_store_loop.simps) simp
next
  case (Suc n)
  have len: "length items = length ds" using irel by (auto dest: list_all2_lengthD)
  have ia: "items_at h records = items"
    using prefix_deref_Some[OF Suc.prems(1) items] by (simp add: items_at_def)
  have lt: "pos < length ds" using Suc.hyps(2) by simp
  then have lt': "pos < length (items_at h records)" using ia len by simp
  have "reads {t} h0 (items ! pos) (PDict (ds ! pos))"
    using list_all2_nthD[OF irel, of pos] lt len by simp
  then have r: "reads {t} h (items ! pos) (PDict (ds ! pos))"
    by (rule reads_frame) (rule prefix_deref_Some[OF Suc.prems(1)])
  have tl: "t < length h" using Suc.prems(2) by (auto simp: deref_def split: if_splits)
  let ?docval = "flatten endpoint (clean_record (ds ! pos))
                   (envelope x g endpoint now (int pos + 1) (clean_record (ds ! pos)))"
  from step_refines[OF r tl Suc.prems(2,3), of x g endpoint now "int pos + 1"]
  obtain rec h1 doc h2 where
    c: "clean_record_store h (items ! pos) = Inr (rec, h1)"
    and e: "envelope_store x g endpoint now (int pos + 1) rec h1 = (doc, h2)"
    and t4: "deref (append_at (flatten_store endpoint rec doc h2) t (HRef doc)) t =
               Some (HList (xs @ [HRef doc]))"
    and a4: "list_all2 (reads {t} (append_at (flatten_store endpoint rec doc h2) t (HRef doc)))
               (xs @ [HRef doc]) (acc @ [PDict ?docval])"
    by blast
  let ?h4 = "append_at (flatten_store endpoint rec doc h2) t (HRef doc)"
  have 1: "prefix h0 h1" using c Suc.prems(1) clean_record_store_frame by blast
  have 2: "prefix h0 h2" "length h0 \<le> doc" using envelope_store_frame[OF e 1] by simp_all
  have 4: "prefix h0 ?h4" using 2 th0 by (simp add: prefix_append_at prefix_flatten)
  have n: "n = length ds - (pos + 1)" using Suc.hyps(2) by simp
  have pos': "pos + 1 \<le> length ds" using lt by simp
  from Suc.hyps(1)[OF n 4 t4 a4 pos']
  obtain h' ys where
    l: "transform_store_loop x g endpoint now records t (pos + 1) ?h4 = Some (Inr t, h')"
    and y: "deref h' t = Some (HList ys)"
    and ry: "list_all2 (reads {t} h') ys
               ((acc @ [PDict ?docval]) @
                map PDict (enriched x g endpoint now (int (pos + 1) + 1) (drop (pos + 1) ds)))"
    by blast
  have "drop pos ds = ds ! pos # drop (pos + 1) ds"
    using lt by (simp add: Cons_nth_drop_Suc)
  then have "map PDict (enriched x g endpoint now (int pos + 1) (drop pos ds)) =
      PDict ?docval # map PDict (enriched x g endpoint now (int (pos + 1) + 1) (drop (pos + 1) ds))"
    by (simp add: add.commute)
  then have "list_all2 (reads {t} h') ys
      (acc @ map PDict (enriched x g endpoint now (int pos + 1) (drop pos ds)))"
    using ry by simp
  moreover have "transform_store_loop x g endpoint now records t pos h = Some (Inr t, h')"
    using lt' ia c e l by (subst transform_store_loop.simps) simp
  ultimately show ?case using y by blast
qed

text \<open>
  When the argument of \<^verbatim>\<open>transform\<close> is a list object whose elements stand for the
  dicts \<open>ds\<close>, the transformer on the store succeeds, what it returns stands for the
  documents that the transformer on values returns for \<open>ds\<close>, and the two leave the same
  log and clock behind.
\<close>

lemma transform_store_refines:
  assumes "reads {} h (HRef records) (PList (map PDict ds))"
  shows "\<exists>t h' docs. transform_store x g records endpoint h w =
             Some (Inr t, h', snd (transform x g (map PDict ds) endpoint w)) \<and>
           fst (transform x g (map PDict ds) endpoint w) = Inr docs \<and>
           reads {} h' (HRef t) (PList docs)"
proof -
  from assms obtain items where items: "deref h records = Some (HList items)"
    and irel: "list_all2 (reads {} h) items (map PDict ds)"
    by (cases rule: reads.cases) auto
  let ?t = "length h"
  let ?h1 = "h @ [HList []]"
  let ?now = "clock x (clock_reads w)"
  have len: "length items = length ds" using irel by (auto dest: list_all2_lengthD)
  have irel': "list_all2 (reads {?t} h) items (map PDict ds)"
    using irel
  proof (rule list_all2_mono)
    fix v p
    assume "reads {} h v p"
    then show "reads {?t} h v p" using reads_avoid[of "{}" h v p ?t] by simp
  qed
  have x0: "deref ?h1 ?t = Some (HList [])" by (simp add: deref_def)
  have a0: "list_all2 (reads {?t} ?h1) [] []" by simp
  from loop_refines[OF items irel' _ _ x0 a0, of 0 x g endpoint ?now]
  obtain h' ys where
    l: "transform_store_loop x g endpoint ?now records ?t 0 ?h1 = Some (Inr ?t, h')"
    and y: "deref h' ?t = Some (HList ys)"
    and ry: "list_all2 (reads {?t} h') ys (map PDict (enriched x g endpoint ?now 1 ds))"
    by auto
  have "list_all2 (reads {} h') ys (map PDict (enriched x g endpoint ?now 1 ds))"
    using ry by (rule list_all2_mono) (rule reads_drop_avoid)
  then have rd: "reads {} h' (HRef ?t) (PList (map PDict (enriched x g endpoint ?now 1 ds)))"
    using y by (auto intro: reads.intros)
  have ia: "items_at h records = items" using items by (simp add: items_at_def)
  have "transform_store x g records endpoint h w =
      Some (Inr ?t, h', snd (transform x g (map PDict ds) endpoint w))"
    using l by (simp add: transform_store_def alloc_def Let_def log_msg_def ia len
        transform_dicts)
  moreover have "fst (transform x g (map PDict ds) endpoint w) =
      Inr (map PDict (enriched x g endpoint ?now 1 ds))"
    by (simp add: transform_dicts)
  ultimately show ?thesis using rd by blast
qed

text \<open>
  The two models on the example records. The objects that the call adds to the store
  are the list of the two documents and, for each record, the cleaned dict, the
  \<^verbatim>\<open>source\<close> dict and the document, which refers to the cleaned dict.
\<close>

lemma example_store_reads:
  "reads {} example_store (HRef 2) (PList (map PDict example_records))"
proof -
  have 0: "reads {} example_store (HRef 0) (PDict (example_records ! 0))"
    by (rule reads.intros(8)[where d = "[(''id'', HInt 1), (''name'', HStr ''English''),
            (''iso6391'', HStr ''en'')]"])
       (auto simp: example_store_def example_records_def deref_def intro: reads.intros)
  have 1: "reads {} example_store (HRef 1) (PDict (example_records ! 1))"
    by (rule reads.intros(8)[where d = "[(''id'', HInt 2), (''name'', HStr []),
            (''iso6391'', HNone)]"])
       (auto simp: example_store_def example_records_def deref_def intro: reads.intros)
  have "list_all2 (reads {} example_store) [HRef 0, HRef 1] (map PDict example_records)"
    using 0 1 by (simp add: example_records_def)
  moreover have "deref example_store 2 = Some (HList [HRef 0, HRef 1])"
    by (simp add: example_store_def deref_def)
  ultimately show ?thesis by (auto intro: reads.intros)
qed

lemma transform_store_refines_example:
  "\<exists>t h' docs.
     transform_store unreachable default_globals 2 ''/languages'' example_store fresh_world =
       Some (Inr t, h', snd (transform unreachable default_globals (map PDict example_records)
                               ''/languages'' fresh_world)) \<and>
     fst (transform unreachable default_globals (map PDict example_records) ''/languages''
            fresh_world) = Inr docs \<and>
     reads {} h' (HRef t) (PList docs)"
  using example_store_reads by (rule transform_store_refines)

lemma transform_store_example:
  "map_option (\<lambda>(r, h', w'). (r, drop 3 h'))
     (transform_store unreachable default_globals 2 ''/languages'' example_store fresh_world) =
   Some (Inr 3,
     [HList [HRef 6, HRef 9],
      HDict [(''id'', HInt 1), (''name'', HStr ''English''), (''iso6391'', HStr ''en'')],
      HDict [(''api_base'', HStr ''https://api.filterlists.com''),
             (''endpoint'', HStr ''/languages''),
             (''retrieved_at'', HStr ''2024-01-01T00:00:00+00:00'')],
      HDict [(''_source_id'', HInt 1), (''record_index'', HInt 1),
             (''endpoint'', HStr ''languages''),
             (''ingestion_time'', HDatetime (Instant 0)),
             (''schema_version'', HFloat (Fin 1)), (''source'', HRef 5),
             (''data'', HRef 4), (''name'', HStr ''English''),
             (''iso_code'', HStr ''en'')],
      HDict [(''id'', HInt 2)],
      HDict [(''api_base'', HStr ''https://api.filterlists.com''),
             (''endpoint'', HStr ''/languages''),
             (''retrieved_at'', HStr ''2024-01-01T00:00:00+00:00'')],
      HDict [(''_source_id'', HInt 2), (''record_index'', HInt 2),
             (''endpoint'', HStr ''languages''),
             (''ingestion_time'', HDatetime (Instant 0)),
             (''schema_version'', HFloat (Fin 1)), (''source'', HRef 8),
             (''data'', HRef 7), (''name'', HNone), (''iso_code'', HNone)]])"
  by code_simp

lemma transform_example:
  "fst (transform unreachable default_globals (map PDict example_records) ''/languages''
          fresh_world) =
   Inr [PDict [(''_source_id'', PInt 1), (''record_index'', PInt 1),
               (''endpoint'', PStr ''languages''),
               (''ingestion_time'', PDatetime (Instant 0)),
               (''schema_version'', PFloat (Fin 1)),
               (''source'', PDict [(''api_base'', PStr ''https://api.filterlists.com''),
                                   (''endpoint'', PStr ''/languages''),
                                   (''retrieved_at'', PStr ''2024-01-01T00:00:00+00:00'')]),
               (''data'', PDict [(''id'', PInt 1), (''name'', PStr ''English''),
                                 (''iso6391'', PStr ''en'')]),
               (''name'', PStr ''English''), (''iso_code'', PStr ''en'')],
        PDict [(''_source_id'', PInt 2), (''record_index'', PInt 2),
               (''endpoint'', PStr ''languages''),
               (''ingestion_time'', PDatetime (Instant 0)),
               (''schema_version'', PFloat (Fin 1)),
               (''source'', PDict [(''api_base'', PStr ''https://api.filterlists.com''),
                                   (''endpoint'', PStr ''/languages''),
                                   (''retrieved_at'', PStr ''2024-01-01T00:00:00+00:00'')]),
               (''data'', PDict [(''id'', PInt 2)]),
               (''name'', PNone), (''iso_code'', PNone)]]"
  by code_simp

end
